theory Spec2Isabelle
  imports Main "HOL-Library.Log_Nat"
begin

section \<open>Values shared by the three scripts\<close>

text \<open>
  The repository has three scripts: \<^verbatim>\<open>generate_data.py\<close> writes the dimension files,
  \<^verbatim>\<open>load_data.py\<close> loads them into the warehouse and synthesises the fact rows, and
  \<^verbatim>\<open>analytics.py\<close> runs the reports. Everything outside the scripts (the relational
  store, the random generators, the clock, the files) is made an explicit argument.
\<close>

datatype date = Date (d_year: int) (d_month: int) (d_day: int)

datatype error = ValueError | TypeError | KeyError | DatabaseError | FileNotFoundError

record date_row =
  date_value :: date
  year :: int
  quarter :: int
  month :: int
  day :: int
  day_of_week :: int
  week_of_year :: int
  is_weekend :: bool

record customer_row =
  first_name :: string
  last_name :: string
  email :: string
  phone :: string
  city :: string
  state :: string
  country :: string
  customer_segment :: string
  registration_date :: date

record product_row =
  product_name :: string
  category :: string
  subcategory :: string
  brand :: string
  price :: rat
  cost :: rat

record fact_row =
  customer_id :: int
  product_id :: int
  date_id :: int
  quantity :: int
  unit_price :: rat
  total_amount :: rat
  discount_amount :: rat

section \<open>Binary floating point\<close>

text \<open>
  A Python \<^verbatim>\<open>float\<close> and a \<^verbatim>\<open>numpy.float64\<close> are IEEE 754 binary64 numbers. A finite
  one is a rational, and every operation returns the exact result rounded to the nearest
  number with a 53-bit significand, ties to the even significand (\<open>float64\<close>). Results in
  the subnormal range keep the fixed quantum \<open>2 ^ - 1074\<close>. Infinities and NaN are not
  represented: a product of a price and a quantity would have to reach \<open>2 ^ 1024\<close>.
\<close>

definition rint :: "rat \<Rightarrow> int" where
  "rint x = (let f = \<lfloor>x\<rfloor>; r = x - of_int f
             in if r < 1 / 2 then f else if 1 / 2 < r then f + 1
                else if even f then f else f + 1)"

definition two_pow :: "int \<Rightarrow> rat" where
  "two_pow e = (if 0 \<le> e then 2 ^ nat e else 1 / 2 ^ nat (- e))"

definition exponent :: "rat \<Rightarrow> int" where
  "exponent x = (if 1 \<le> x then int (floorlog 2 (nat \<lfloor>x\<rfloor>)) - 1
                 else - int (floorlog 2 (nat (\<lceil>1 / x\<rceil> - 1))))"

definition float64 :: "rat \<Rightarrow> rat" where
  "float64 x = (if x = 0 then 0
                else let ulp = two_pow (max (exponent \<bar>x\<bar>) (- 1022) - 52)
                     in of_int (rint (x / ulp)) * ulp)"

definition f_mul :: "rat \<Rightarrow> rat \<Rightarrow> rat" where
  "f_mul a b = float64 (a * b)"

definition f_sub :: "rat \<Rightarrow> rat \<Rightarrow> rat" where
  "f_sub a b = float64 (a - b)"

definition f_add :: "rat \<Rightarrow> rat \<Rightarrow> rat" where
  "f_add a b = float64 (a + b)"

definition f_div :: "rat \<Rightarrow> rat \<Rightarrow> rat" where
  "f_div a b = float64 (a / b)"

text \<open>
  \<^verbatim>\<open>round(x, 2)\<close> on a \<^verbatim>\<open>numpy.float64\<close> is numpy's rounding: multiply by
  \<^verbatim>\<open>10 ** decimals\<close>, round to the nearest integer (ties to even), divide again, each
  step in binary64. On a Python \<^verbatim>\<open>float\<close> it is the builtin: the exact value of \<open>x\<close>
  rounded to the nearest multiple of \<^verbatim>\<open>10 ** -ndigits\<close>, ties to even, then converted to
  binary64.
\<close>

definition np_round :: "rat \<Rightarrow> nat \<Rightarrow> rat" where
  "np_round x decimals =
     (let f = 10 ^ decimals in f_div (of_int (rint (f_mul x f))) f)"

definition py_round :: "rat \<Rightarrow> nat \<Rightarrow> rat" where
  "py_round x ndigits =
     (let f = 10 ^ ndigits in float64 (of_int (rint (x * f)) / f))"

section \<open>Random generators\<close>

text \<open>
  A generator is the sequence of raw draws its seed determines, and the number of draws
  consumed so far. \<^verbatim>\<open>np.random.choice(a)\<close> raises \<^verbatim>\<open>ValueError\<close> on an empty
  sequence and otherwise returns one element of it; the weights \<^verbatim>\<open>p\<close> shape the
  distribution, not the set of possible results, and are not modelled.
\<close>

record rng =
  raw :: "nat \<Rightarrow> nat"
  pos :: nat

definition draw :: "rng \<Rightarrow> nat \<times> rng" where
  "draw g = (raw g (pos g), g\<lparr>pos := Suc (pos g)\<rparr>)"

definition choice :: "'a list \<Rightarrow> rng \<Rightarrow> (error + 'a) \<times> rng" where
  "choice a g =
     (if a = [] then (Inl ValueError, g)
      else let (r, g') = draw g in (Inr (a ! (r mod length a)), g'))"

definition randint :: "int \<Rightarrow> int \<Rightarrow> rng \<Rightarrow> int \<times> rng" where
  "randint low high g = (let (r, g') = draw g in (low + int r mod (high - low), g'))"

section \<open>The relational store\<close>

text \<open>
  The warehouse holds four tables. A dimension row is stored with the surrogate key the
  store assigned to it. A connection sees a working copy of the tables; \<open>commit\<close> makes
  the working copy durable, \<open>rollback\<close> discards it. The connection records, in the order
  they happened, the bulk insertions and the commits it performed and every statement of
  the batch loop that the store rejected, one entry for each attempt. Which statements
  the store rejects is not for the scripts to decide: \<open>fault\<close> says it for every
  statement of a run.
\<close>

record db =
  date_dimension :: "(int \<times> date_row) list"
  customers :: "(int \<times> customer_row) list"
  products :: "(int \<times> product_row) list"
  sales_transactions :: "fact_row list"

datatype table = DateDimension | Customers | Products | SalesTransactions

datatype stmt =
    Connect
  | SelectKeys table
  | SelectPrice nat
  | InsertRow table nat
  | InsertBatch nat
  | Commit nat
  | CommitDimensions
  | ExitCommit
  | Query nat

datatype event = BulkInsert "fact_row list" | Committed | Rejected stmt

record conn =
  durable :: db
  working :: db
  events :: "event list"

record env =
  fault :: "stmt \<Rightarrow> bool"
  fresh_key :: "int list \<Rightarrow> int"

definition get_connection :: "db \<Rightarrow> conn" where
  "get_connection d = \<lparr>durable = d, working = d, events = []\<rparr>"

definition commit :: "conn \<Rightarrow> conn" where
  "commit c = c\<lparr>durable := working c, events := events c @ [Committed]\<rparr>"

definition rollback :: "conn \<Rightarrow> conn" where
  "rollback c = c\<lparr>working := durable c\<rparr>"

definition executemany :: "fact_row list \<Rightarrow> conn \<Rightarrow> conn" where
  "executemany rows c =
     c\<lparr>working := (working c)\<lparr>sales_transactions := sales_transactions (working c) @ rows\<rparr>,
       events := events c @ [BulkInsert rows]\<rparr>"

definition rejected :: "stmt \<Rightarrow> conn \<Rightarrow> conn" where
  "rejected s c = c\<lparr>events := events c @ [Rejected s]\<rparr>"

section \<open>load\_data.py: the transaction synthesiser\<close>

definition batch_size :: nat where
  "batch_size = 5000"

definition discounts :: "rat list" where
  "discounts = [0, float64 (5 / 100), float64 (10 / 100), float64 (15 / 100)]"

text \<open>
  One pass of the inner loop body (lines 88 to 106), for row number \<open>i\<close>, on the
  connection \<open>c\<close>. The price query returns the first row with the sampled key;
  \<^verbatim>\<open>fetchone()[0]\<close> raises \<^verbatim>\<open>TypeError\<close> when there is none. An exception leaves the
  pass at once: nothing is caught and no statement is issued again.
\<close>

definition generate_transaction ::
  "env \<Rightarrow> conn \<Rightarrow> int list \<Rightarrow> int list \<Rightarrow> int list \<Rightarrow> nat \<Rightarrow> rng
     \<Rightarrow> (error + fact_row) \<times> conn \<times> rng" where
  "generate_transaction ev c customer_ids product_ids date_ids i g =
     (case choice customer_ids g of
        (Inl e, g1) \<Rightarrow> (Inl e, c, g1)
      | (Inr cid, g1) \<Rightarrow>
     (case choice product_ids g1 of
        (Inl e, g2) \<Rightarrow> (Inl e, c, g2)
      | (Inr pid, g2) \<Rightarrow>
     (case choice date_ids g2 of
        (Inl e, g3) \<Rightarrow> (Inl e, c, g3)
      | (Inr did, g3) \<Rightarrow>
     if fault ev (SelectPrice i) then (Inl DatabaseError, rejected (SelectPrice i) c, g3)
     else
     (case map_of (products (working c)) pid of
        None \<Rightarrow> (Inl TypeError, c, g3)
      | Some p \<Rightarrow>
     (case randint 1 6 g3 of (qty, g4) \<Rightarrow>
     (case choice discounts g4 of
        (Inl e, g5) \<Rightarrow> (Inl e, c, g5)
      | (Inr discount_pct, g5) \<Rightarrow>
          let total_before_discount = f_mul (float64 (price p)) (of_int qty);
              disc = np_round (f_mul total_before_discount discount_pct) 2;
              total = np_round (f_sub total_before_discount disc) 2
          in (Inr \<lparr>customer_id = cid, product_id = pid, date_id = did,
                    quantity = qty, unit_price = float64 (price p),
                    total_amount = total, discount_amount = disc\<rparr>, c, g5)))))))"

text \<open>The inner loop \<^verbatim>\<open>for i in range(batch, batch_end)\<close>, over the list of its indices.\<close>

fun generate_rows ::
  "env \<Rightarrow> conn \<Rightarrow> int list \<Rightarrow> int list \<Rightarrow> int list \<Rightarrow> nat list \<Rightarrow> fact_row list \<Rightarrow> rng
     \<Rightarrow> (error + fact_row list) \<times> conn \<times> rng" where
  "generate_rows ev c cs ps ds [] batch_transactions g = (Inr batch_transactions, c, g)"
| "generate_rows ev c cs ps ds (i # is) batch_transactions g =
     (case generate_transaction ev c cs ps ds i g of
        (Inl e, c', g') \<Rightarrow> (Inl e, c', g')
      | (Inr row, c', g') \<Rightarrow> generate_rows ev c' cs ps ds is (batch_transactions @ [row]) g')"

text \<open>
  The outer loop \<^verbatim>\<open>for batch in range(0, num_transactions, batch_size)\<close> (lines 83 to
  115): generate the batch, insert it with one \<^verbatim>\<open>executemany\<close>, commit. The loop has
  no \<^verbatim>\<open>try\<close>: an exception in any of the three steps ends it.
\<close>

function load_batches ::
  "env \<Rightarrow> int list \<Rightarrow> int list \<Rightarrow> int list \<Rightarrow> nat \<Rightarrow> nat \<Rightarrow> conn \<Rightarrow> rng
     \<Rightarrow> (error + unit) \<times> conn \<times> rng" where
  "load_batches ev cs ps ds num_transactions batch c g =
     (if batch < num_transactions then
        let batch_end = min (batch + batch_size) num_transactions in
        (case generate_rows ev c cs ps ds [batch ..< batch_end] [] g of
           (Inl e, c', g') \<Rightarrow> (Inl e, c', g')
         | (Inr batch_transactions, c', g') \<Rightarrow>
             if fault ev (InsertBatch batch)
             then (Inl DatabaseError, rejected (InsertBatch batch) c', g')
             else let c1 = executemany batch_transactions c' in
               if fault ev (Commit batch)
               then (Inl DatabaseError, rejected (Commit batch) c1, g')
               else load_batches ev cs ps ds num_transactions (batch + batch_size) (commit c1) g')
      else (Inr (), c, g))"
  by pat_completeness auto
termination
  by (relation "measure (\<lambda>(ev, cs, ps, ds, n, batch, c, g). n - batch)")
     (auto simp: batch_size_def)

declare load_batches.simps [simp del]

text \<open>
  \<^verbatim>\<open>generate_and_load_transactions\<close> (lines 62 to 117). The \<^verbatim>\<open>with\<close> block commits when
  its body ends normally and rolls back when the body raises; the exception then reaches
  the caller. The result is the outcome, the connection as the call leaves it, and the
  generator.
\<close>

definition select_keys :: "(int \<times> 'r) list \<Rightarrow> int list" where
  "select_keys t = map fst t"

definition generate_and_load_transactions ::
  "env \<Rightarrow> nat \<Rightarrow> db \<Rightarrow> rng \<Rightarrow> (error + unit) \<times> conn \<times> rng" where
  "generate_and_load_transactions ev num_transactions d g =
     (if fault ev Connect then (Inl DatabaseError, get_connection d, g)
      else let c = get_connection d in
        if fault ev (SelectKeys Customers) \<or> fault ev (SelectKeys Products)
           \<or> fault ev (SelectKeys DateDimension)
        then (Inl DatabaseError, rollback c, g)
        else
          let customer_ids = select_keys (customers (working c));
              product_ids = select_keys (products (working c));
              date_ids = select_keys (date_dimension (working c))
          in (case load_batches ev customer_ids product_ids date_ids num_transactions 0 c g of
                (Inl e, c', g') \<Rightarrow> (Inl e, rollback c', g')
              | (Inr u, c', g') \<Rightarrow>
                  if fault ev ExitCommit then (Inl DatabaseError, rollback c', g')
                  else (Inr (), commit c', g')))"

text \<open>What a run handed to \<^verbatim>\<open>executemany\<close>, and the record of \<open>k\<close> loaded batches.\<close>

definition inserted_rows :: "conn \<Rightarrow> fact_row list" where
  "inserted_rows c =
     concat (map (\<lambda>e. case e of BulkInsert rows \<Rightarrow> rows | _ \<Rightarrow> []) (events c))"

definition batch_log :: "fact_row list list \<Rightarrow> event list" where
  "batch_log bs = concat (map (\<lambda>b. [BulkInsert b, Committed]) bs)"

definition add_rows :: "db \<Rightarrow> fact_row list \<Rightarrow> db" where
  "add_rows w rows = w\<lparr>sales_transactions := sales_transactions w @ rows\<rparr>"

section \<open>load\_data.py: the dimension loader\<close>

text \<open>
  The three files as \<^verbatim>\<open>pd.read_csv\<close> finds them: \<open>None\<close> is a file that cannot be
  read. An \<^verbatim>\<open>INSERT\<close> appends the row under the key the store assigns.
\<close>

record files =
  date_dimension_csv :: "date_row list option"
  customers_csv :: "customer_row list option"
  products_csv :: "product_row list option"

definition insert_date :: "env \<Rightarrow> date_row \<Rightarrow> db \<Rightarrow> db" where
  "insert_date ev row w =
     w\<lparr>date_dimension := date_dimension w @ [(fresh_key ev (map fst (date_dimension w)), row)]\<rparr>"

definition insert_customer :: "env \<Rightarrow> customer_row \<Rightarrow> db \<Rightarrow> db" where
  "insert_customer ev row w =
     w\<lparr>customers := customers w @ [(fresh_key ev (map fst (customers w)), row)]\<rparr>"

definition insert_product :: "env \<Rightarrow> product_row \<Rightarrow> db \<Rightarrow> db" where
  "insert_product ev row w =
     w\<lparr>products := products w @ [(fresh_key ev (map fst (products w)), row)]\<rparr>"

text \<open>One \<^verbatim>\<open>for _, row in df.iterrows(): cursor.execute(INSERT ...)\<close> loop; \<open>j\<close> counts the rows.\<close>

fun insert_rows ::
  "env \<Rightarrow> table \<Rightarrow> ('r \<Rightarrow> db \<Rightarrow> db) \<Rightarrow> nat \<Rightarrow> 'r list \<Rightarrow> db \<Rightarrow> error + db" where
  "insert_rows ev t ins j [] w = Inr w"
| "insert_rows ev t ins j (row # rows) w =
     (if fault ev (InsertRow t j) then Inl DatabaseError
      else insert_rows ev t ins (Suc j) rows (ins row w))"

text \<open>
  \<^verbatim>\<open>load_dimension_tables\<close> (lines 23 to 60): one connection, the three loops, one
  \<^verbatim>\<open>conn.commit()\<close> after the last loop.
\<close>

definition load_dimension_tables :: "env \<Rightarrow> files \<Rightarrow> db \<Rightarrow> (error + unit) \<times> conn" where
  "load_dimension_tables ev f d =
     (if fault ev Connect then (Inl DatabaseError, get_connection d)
      else let c = get_connection d in
        (case date_dimension_csv f of
           None \<Rightarrow> (Inl FileNotFoundError, rollback c)
         | Some dates_df \<Rightarrow>
        (case insert_rows ev DateDimension (insert_date ev) 0 dates_df (working c) of
           Inl e \<Rightarrow> (Inl e, rollback c)
         | Inr w1 \<Rightarrow>
        (case customers_csv f of
           None \<Rightarrow> (Inl FileNotFoundError, rollback (c\<lparr>working := w1\<rparr>))
         | Some customers_df \<Rightarrow>
        (case insert_rows ev Customers (insert_customer ev) 0 customers_df w1 of
           Inl e \<Rightarrow> (Inl e, rollback (c\<lparr>working := w1\<rparr>))
         | Inr w2 \<Rightarrow>
        (case products_csv f of
           None \<Rightarrow> (Inl FileNotFoundError, rollback (c\<lparr>working := w2\<rparr>))
         | Some products_df \<Rightarrow>
        (case insert_rows ev Products (insert_product ev) 0 products_df w2 of
           Inl e \<Rightarrow> (Inl e, rollback (c\<lparr>working := w2\<rparr>))
         | Inr w3 \<Rightarrow>
             if fault ev CommitDimensions then (Inl DatabaseError, rollback (c\<lparr>working := w3\<rparr>))
             else let c' = commit (c\<lparr>working := w3\<rparr>) in
               if fault ev ExitCommit then (Inl DatabaseError, rollback c')
               else (Inr (), commit c'))))))))"

text \<open>A table \<open>new\<close> that is \<open>old\<close> followed by exactly the rows \<open>rows\<close>, each under some key.\<close>

definition extended :: "(int \<times> 'r) list \<Rightarrow> 'r list \<Rightarrow> (int \<times> 'r) list \<Rightarrow> bool" where
  "extended old rows new \<longleftrightarrow>
     take (length old) new = old \<and> map snd (drop (length old) new) = rows"

section \<open>analytics.py\<close>

text \<open>
  Each report prints its heading, runs its query on a connection of its own and prints
  the table; the query (or the connection) may fail. \<^verbatim>\<open>main\<close> (lines 158 to 177) calls the
  six reports one after the other inside a single \<^verbatim>\<open>try\<close>.
\<close>

datatype report =
    SalesByMonth | TopCustomers | ProductPerformance
  | SalesByCategory | CustomerSegmentAnalysis | WeekendVsWeekdaySales

datatype line = Banner | Heading report | Result report | Completed | ErrorLine error

fun report_number :: "report \<Rightarrow> nat" where
  "report_number SalesByMonth = 0"
| "report_number TopCustomers = 1"
| "report_number ProductPerformance = 2"
| "report_number SalesByCategory = 3"
| "report_number CustomerSegmentAnalysis = 4"
| "report_number WeekendVsWeekdaySales = 5"

definition run_report :: "env \<Rightarrow> report \<Rightarrow> line list \<Rightarrow> (error + unit) \<times> line list" where
  "run_report ev r out =
     (if fault ev (Query (report_number r)) then (Inl DatabaseError, out @ [Heading r])
      else (Inr (), out @ [Heading r, Result r]))"

fun run_reports :: "env \<Rightarrow> report list \<Rightarrow> line list \<Rightarrow> (error + unit) \<times> line list" where
  "run_reports ev [] out = (Inr (), out)"
| "run_reports ev (r # rs) out =
     (case run_report ev r out of
        (Inl e, out') \<Rightarrow> (Inl e, out')
      | (Inr u, out') \<Rightarrow> run_reports ev rs out')"

definition battery :: "report list" where
  "battery = [SalesByMonth, TopCustomers, ProductPerformance, SalesByCategory,
              CustomerSegmentAnalysis, WeekendVsWeekdaySales]"

definition analytics_main :: "env \<Rightarrow> line list" where
  "analytics_main ev =
     (case run_reports ev battery [Banner] of
        (Inl e, out) \<Rightarrow> out @ [ErrorLine e]
      | (Inr u, out) \<Rightarrow> out @ [Completed])"

section \<open>generate\_data.py: the calendar\<close>

text \<open>
  \<^verbatim>\<open>pd.date_range(start, end, freq='D')\<close> is the sequence of days from \<open>start\<close>, one
  for each day up to \<open>end\<close>; its length is the difference of the two day numbers plus
  one. The day number is that of the proleptic Gregorian calendar (\<^verbatim>\<open>date.toordinal\<close>),
  \<open>weekday\<close> is \<^verbatim>\<open>dayofweek\<close> (Monday is 0), \<open>isoweek\<close> is \<^verbatim>\<open>isocalendar().week\<close>.
\<close>

definition is_leap :: "int \<Rightarrow> bool" where
  "is_leap y \<longleftrightarrow> y mod 4 = 0 \<and> (y mod 100 \<noteq> 0 \<or> y mod 400 = 0)"

definition days_in_month :: "int \<Rightarrow> int \<Rightarrow> int" where
  "days_in_month y m =
     (if m = 2 then (if is_leap y then 29 else 28)
      else if m = 4 \<or> m = 6 \<or> m = 9 \<or> m = 11 then 30 else 31)"

fun valid_date :: "date \<Rightarrow> bool" where
  "valid_date (Date y m d) \<longleftrightarrow> 1 \<le> m \<and> m \<le> 12 \<and> 1 \<le> d \<and> d \<le> days_in_month y m"

fun date_less :: "date \<Rightarrow> date \<Rightarrow> bool" where
  "date_less (Date y m d) (Date y' m' d') \<longleftrightarrow>
     y < y' \<or> (y = y' \<and> (m < m' \<or> (m = m' \<and> d < d')))"

definition date_le :: "date \<Rightarrow> date \<Rightarrow> bool" where
  "date_le a b \<longleftrightarrow> a = b \<or> date_less a b"

fun next_day :: "date \<Rightarrow> date" where
  "next_day (Date y m d) =
     (if d < days_in_month y m then Date y m (d + 1)
      else if m < 12 then Date y (m + 1) 1
      else Date (y + 1) 1 1)"

fun prev_day :: "date \<Rightarrow> date" where
  "prev_day (Date y m d) =
     (if 1 < d then Date y m (d - 1)
      else if 1 < m then Date y (m - 1) (days_in_month y (m - 1))
      else Date (y - 1) 12 31)"

definition days_before_year :: "int \<Rightarrow> int" where
  "days_before_year y = (y - 1) * 365 + (y - 1) div 4 - (y - 1) div 100 + (y - 1) div 400"

definition days_before_month :: "int \<Rightarrow> int \<Rightarrow> int" where
  "days_before_month y m = sum_list (map (days_in_month y) [1 .. m - 1])"

fun toordinal :: "date \<Rightarrow> int" where
  "toordinal (Date y m d) = days_before_year y + days_before_month y m + d"

definition weekday :: "date \<Rightarrow> int" where
  "weekday dt = (toordinal dt + 6) mod 7"

definition isoweek1monday :: "int \<Rightarrow> int" where
  "isoweek1monday y =
     (let firstday = toordinal (Date y 1 1);
          firstweekday = (firstday + 6) mod 7;
          week1monday = firstday - firstweekday
      in if 3 < firstweekday then week1monday + 7 else week1monday)"

definition isoweek :: "date \<Rightarrow> int" where
  "isoweek dt =
     (let y = d_year dt; today = toordinal dt;
          week = (today - isoweek1monday y) div 7
      in if week < 0 then (today - isoweek1monday (y - 1)) div 7 + 1
         else if 52 \<le> week \<and> isoweek1monday (y + 1) \<le> today then 1
         else week + 1)"

fun days_from :: "date \<Rightarrow> nat \<Rightarrow> date list" where
  "days_from s 0 = []"
| "days_from s (Suc n) = s # days_from (next_day s) n"

definition date_range :: "date \<Rightarrow> date \<Rightarrow> date list" where
  "date_range start end = days_from start (nat (toordinal end - toordinal start + 1))"

definition date_record :: "date \<Rightarrow> date_row" where
  "date_record dt =
     \<lparr>date_value = dt, year = d_year dt, quarter = (d_month dt - 1) div 3 + 1,
      month = d_month dt, day = d_day dt, day_of_week = weekday dt + 1,
      week_of_year = isoweek dt, is_weekend = (5 \<le> weekday dt)\<rparr>"

definition generate_date_dimension :: "date_row list" where
  "generate_date_dimension = map date_record (date_range (Date 2023 1 1) (Date 2024 12 31))"

section \<open>generate\_data.py: customers and products\<close>

text \<open>
  The providers of the Faker library draw from Faker's own generator; what they return
  is a parameter. \<^verbatim>\<open>fake.date_between(start_date='-1y', end_date='today')\<close> reads the
  clock: it returns a day between 365 days before today and today.
\<close>

record faker =
  fake_first_name :: "rng \<Rightarrow> string \<times> rng"
  fake_last_name :: "rng \<Rightarrow> string \<times> rng"
  fake_email :: "rng \<Rightarrow> string \<times> rng"
  fake_phone_number :: "rng \<Rightarrow> string \<times> rng"
  fake_city :: "rng \<Rightarrow> string \<times> rng"
  fake_state_abbr :: "rng \<Rightarrow> string \<times> rng"

definition date_between :: "date \<Rightarrow> rng \<Rightarrow> date \<times> rng" where
  "date_between today g =
     (let (r, g') = draw g
      in (((next_day ^^ (r mod 366)) ((prev_day ^^ 365) today)), g'))"

definition customer_segments :: "string list" where
  "customer_segments = [''Premium'', ''Standard'', ''Basic'', ''VIP'']"

text \<open>The dictionary of lines 50 to 60; its values are evaluated in the order written.\<close>

definition new_customer ::
  "faker \<Rightarrow> date \<Rightarrow> rng \<times> rng \<Rightarrow> (error + customer_row) \<times> rng \<times> rng" where
  "new_customer fk today s =
     (case s of (fg, ng) \<Rightarrow>
      case fake_first_name fk fg of (fname, f1) \<Rightarrow>
      case fake_last_name fk f1 of (lname, f2) \<Rightarrow>
      case fake_email fk f2 of (em, f3) \<Rightarrow>
      case fake_phone_number fk f3 of (ph, f4) \<Rightarrow>
      case fake_city fk f4 of (ci, f5) \<Rightarrow>
      case fake_state_abbr fk f5 of (sa, f6) \<Rightarrow>
      (case choice customer_segments ng of
         (Inl e, n1) \<Rightarrow> (Inl e, f6, n1)
       | (Inr seg, n1) \<Rightarrow>
           (case date_between today f6 of (rd, f7) \<Rightarrow>
              (Inr \<lparr>first_name = fname, last_name = lname, email = em, phone = take 20 ph,
                    city = ci, state = sa, country = ''USA'', customer_segment = seg,
                    registration_date = rd\<rparr>, f7, n1))))"

fun customers_batch ::
  "faker \<Rightarrow> date \<Rightarrow> nat list \<Rightarrow> customer_row list \<Rightarrow> rng \<times> rng
     \<Rightarrow> (error + customer_row list) \<times> rng \<times> rng" where
  "customers_batch fk today [] batch_customers s = (Inr batch_customers, s)"
| "customers_batch fk today (i # is) batch_customers s =
     (case new_customer fk today s of
        (Inl e, s') \<Rightarrow> (Inl e, s')
      | (Inr row, s') \<Rightarrow> customers_batch fk today is (batch_customers @ [row]) s')"

function customers_batches ::
  "faker \<Rightarrow> date \<Rightarrow> nat \<Rightarrow> nat \<Rightarrow> customer_row list \<Rightarrow> rng \<times> rng
     \<Rightarrow> (error + customer_row list) \<times> rng \<times> rng" where
  "customers_batches fk today num_customers batch customers_list s =
     (if batch < num_customers then
        (case customers_batch fk today [batch ..< min (batch + 1000) num_customers] [] s of
           (Inl e, s') \<Rightarrow> (Inl e, s')
         | (Inr batch_customers, s') \<Rightarrow>
             customers_batches fk today num_customers (batch + 1000)
               (customers_list @ batch_customers) s')
      else (Inr customers_list, s))"
  by pat_completeness auto
termination
  by (relation "measure (\<lambda>(fk, today, n, batch, l, s). n - batch)") auto

declare customers_batches.simps [simp del]

definition generate_customers ::
  "faker \<Rightarrow> date \<Rightarrow> nat \<Rightarrow> rng \<times> rng \<Rightarrow> (error + customer_row list) \<times> rng \<times> rng" where
  "generate_customers fk today num_customers s = customers_batches fk today num_customers 0 [] s"

definition categories :: "(string \<times> string list) list" where
  "categories =
     [(''Electronics'', [''Smartphones'', ''Laptops'', ''Headphones'']),
      (''Clothing'', [''Shirts'', ''Pants'', ''Shoes'']),
      (''Home'', [''Furniture'', ''Appliances'', ''Decor'']),
      (''Books'', [''Fiction'', ''Non-Fiction'', ''Educational'']),
      (''Sports'', [''Equipment'', ''Apparel'', ''Accessories''])]"

definition brands :: "string list" where
  "brands = [''BrandA'', ''BrandB'', ''BrandC'', ''Generic'']"

text \<open>
  \<^verbatim>\<open>np.random.uniform(low, high)\<close> is \<^verbatim>\<open>low + (high - low) * u\<close> for a draw \<open>u\<close> of 53
  random bits scaled into \<open>[0, 1)\<close>; \<open>str_nat\<close> is the decimal numeral of an f-string.
\<close>

definition uniform :: "rat \<Rightarrow> rat \<Rightarrow> rng \<Rightarrow> rat \<times> rng" where
  "uniform low high g =
     (let (r, g') = draw g
      in (f_add low (f_mul (f_sub high low) (of_nat (r mod 2 ^ 53) / 2 ^ 53)), g'))"

function str_nat :: "nat \<Rightarrow> string" where
  "str_nat n =
     (if n < 10 then [char_of (48 + n)]
      else str_nat (n div 10) @ [char_of (48 + n mod 10)])"
  by pat_completeness auto
termination
  by (relation "measure (\<lambda>n. n)") auto

declare str_nat.simps [simp del]

definition new_product :: "nat \<Rightarrow> rng \<Rightarrow> (error + product_row) \<times> rng" where
  "new_product i g =
     (case choice (map fst categories) g of
        (Inl e, g1) \<Rightarrow> (Inl e, g1)
      | (Inr cat, g1) \<Rightarrow>
     (case map_of categories cat of
        None \<Rightarrow> (Inl KeyError, g1)
      | Some subs \<Rightarrow>
     (case choice subs g1 of
        (Inl e, g2) \<Rightarrow> (Inl e, g2)
      | (Inr sub, g2) \<Rightarrow>
     (case choice brands g2 of
        (Inl e, g3) \<Rightarrow> (Inl e, g3)
      | (Inr br, g3) \<Rightarrow>
     (case uniform 10 200 g3 of (u1, g4) \<Rightarrow>
     (case uniform (3 / 2) (5 / 2) g4 of (u2, g5) \<Rightarrow>
        let c = py_round u1 2; p = py_round (f_mul c u2) 2
        in (Inr \<lparr>product_name = br @ '' '' @ sub @ '' '' @ str_nat (i + 1),
                  category = cat, subcategory = sub, brand = br, price = p, cost = c\<rparr>,
            g5)))))))"

fun products_loop ::
  "nat list \<Rightarrow> product_row list \<Rightarrow> rng \<Rightarrow> (error + product_row list) \<times> rng" where
  "products_loop [] products_list g = (Inr products_list, g)"
| "products_loop (i # is) products_list g =
     (case new_product i g of
        (Inl e, g') \<Rightarrow> (Inl e, g')
      | (Inr row, g') \<Rightarrow> products_loop is (products_list @ [row]) g')"

definition generate_products :: "nat \<Rightarrow> rng \<Rightarrow> (error + product_row list) \<times> rng" where
  "generate_products num_products g = products_loop [0 ..< num_products] [] g"

text \<open>
  The script's entry point (lines 107 to 120): dates, then 5000 customers, then 500
  products; the three data frames are the three files it leaves.
\<close>

definition generate_data_main :: "faker \<Rightarrow> date \<Rightarrow> rng \<times> rng \<Rightarrow> error + files" where
  "generate_data_main fk today s =
     (let dates_df = generate_date_dimension in
      case generate_customers fk today 5000 s of
        (Inl e, s') \<Rightarrow> Inl e
      | (Inr customers_df, (fg, ng)) \<Rightarrow>
          (case generate_products 500 ng of
             (Inl e, ng') \<Rightarrow> Inl e
           | (Inr products_df, ng') \<Rightarrow>
               Inr \<lparr>date_dimension_csv = Some dates_df, customers_csv = Some customers_df,
                    products_csv = Some products_df\<rparr>))"

text \<open>A customer row without the one field that depends on the clock.\<close>

definition without_registration :: "customer_row \<Rightarrow> customer_row" where
  "without_registration r = r\<lparr>registration_date := Date 1 1 1\<rparr>"

section \<open>Concrete inputs\<close>

text \<open>
  A store that rejects nothing, a warehouse with one date, one customer and one product,
  and a seed whose fifth draw is 2 (all others 0).
\<close>

definition quiet_store :: env where
  "quiet_store = \<lparr>fault = (\<lambda>s. False), fresh_key = (\<lambda>ks. int (length ks) + 1)\<rparr>"

definition new_year :: date_row where
  "new_year = \<lparr>date_value = Date 2023 1 1, year = 2023, quarter = 1, month = 1, day = 1,
     day_of_week = 7, week_of_year = 52, is_weekend = True\<rparr>"

definition ann :: customer_row where
  "ann = \<lparr>first_name = ''Ann'', last_name = ''Lee'', email = ''ann@example.org'',
     phone = ''555-0100'', city = ''Reno'', state = ''NV'', country = ''USA'',
     customer_segment = ''Basic'', registration_date = Date 2022 6 1\<rparr>"

definition lamp :: product_row where
  "lamp = \<lparr>product_name = ''Generic Decor 1'', category = ''Home'', subcategory = ''Decor'',
     brand = ''Generic'', price = 1045 / 100, cost = 5\<rparr>"

definition small_shop :: db where
  "small_shop = \<lparr>date_dimension = [(1, new_year)], customers = [(1, ann)],
     products = [(1, lamp)], sales_transactions = []\<rparr>"

definition fixed_seed :: rng where
  "fixed_seed = \<lparr>raw = (\<lambda>i. if i = 4 then 2 else 0), pos = 0\<rparr>"

definition flaky_store :: env where
  "flaky_store = \<lparr>fault = (\<lambda>s. s = InsertBatch 5000), fresh_key = (\<lambda>ks. int (length ks) + 1)\<rparr>"

definition no_products :: db where
  "no_products = \<lparr>date_dimension = [(1, new_year)], customers = [(1, ann)],
     products = [], sales_transactions = []\<rparr>"

definition first_query_fails :: env where
  "first_query_fails = \<lparr>fault = (\<lambda>s. s = Query 0), fresh_key = (\<lambda>ks. int (length ks) + 1)\<rparr>"

definition answers :: "env \<Rightarrow> report \<Rightarrow> bool" where
  "answers ev r \<longleftrightarrow> \<not> fault ev (Query (report_number r))"

definition file_rows :: "'r list option \<Rightarrow> nat" where
  "file_rows file = (case file of None \<Rightarrow> 0 | Some rows \<Rightarrow> length rows)"

definition rejected_insert :: "env \<Rightarrow> files \<Rightarrow> bool" where
  "rejected_insert ev f \<longleftrightarrow>
     (\<exists>j < file_rows (date_dimension_csv f). fault ev (InsertRow DateDimension j))
     \<or> (\<exists>j < file_rows (customers_csv f). fault ev (InsertRow Customers j))
     \<or> (\<exists>j < file_rows (products_csv f). fault ev (InsertRow Products j))"

definition fully_loaded :: "files \<Rightarrow> db \<Rightarrow> db \<Rightarrow> bool" where
  "fully_loaded f d d' \<longleftrightarrow>
     (\<exists>dates_df customers_df products_df.
        date_dimension_csv f = Some dates_df \<and> customers_csv f = Some customers_df
        \<and> products_csv f = Some products_df
        \<and> extended (date_dimension d) dates_df (date_dimension d')
        \<and> extended (customers d) customers_df (customers d')
        \<and> extended (products d) products_df (products d')
        \<and> sales_transactions d' = sales_transactions d)"

definition three_files :: files where
  "three_files = \<lparr>date_dimension_csv = Some [new_year], customers_csv = Some [ann],
     products_csv = Some [lamp]\<rparr>"

definition empty_warehouse :: db where
  "empty_warehouse = \<lparr>date_dimension = [], customers = [], products = [],
     sales_transactions = []\<rparr>"

definition rejects_product :: env where
  "rejects_product = \<lparr>fault = (\<lambda>s. s = InsertRow Products 0),
     fresh_key = (\<lambda>ks. int (length ks) + 1)\<rparr>"

definition dimension_faults :: "env \<Rightarrow> files \<Rightarrow> bool" where
  "dimension_faults ev f \<longleftrightarrow>
     fault ev Connect \<or> date_dimension_csv f = None \<or> customers_csv f = None
     \<or> products_csv f = None \<or> rejected_insert ev f \<or> fault ev CommitDimensions"

section \<open>The transaction synthesiser: the loops\<close>

lemma choice_mem: "choice a g = (Inr x, g') \<Longrightarrow> x \<in> set a"
  by (auto simp: choice_def Let_def split: if_splits prod.splits)

lemma choice_ok: "a \<noteq> [] \<Longrightarrow> \<exists>x g'. choice a g = (Inr x, g')"
  by (auto simp: choice_def Let_def split: prod.splits)

lemma choice_empty: "choice [] g = (Inl ValueError, g)"
  by (simp add: choice_def)

lemma randint_range: "randint 1 6 g = (q, g') \<Longrightarrow> 1 \<le> q \<and> q \<le> 5"
  by (auto simp: randint_def Let_def split: prod.splits)

lemma generate_transaction_Inr:
  assumes "generate_transaction ev c cs ps ds i g = (Inr row, c', g')"
  obtains cid g1 pid g2 did g3 p qty g4 d where
    "choice cs g = (Inr cid, g1)" "choice ps g1 = (Inr pid, g2)"
    "choice ds g2 = (Inr did, g3)" "\<not> fault ev (SelectPrice i)"
    "map_of (products (working c)) pid = Some p" "randint 1 6 g3 = (qty, g4)"
    "choice discounts g4 = (Inr d, g')"
    "row = \<lparr>customer_id = cid, product_id = pid, date_id = did, quantity = qty,
             unit_price = float64 (price p),
             total_amount = np_round (f_sub (f_mul (float64 (price p)) (of_int qty))
                (np_round (f_mul (f_mul (float64 (price p)) (of_int qty)) d) 2)) 2,
             discount_amount = np_round (f_mul (f_mul (float64 (price p)) (of_int qty)) d) 2\<rparr>"
    "c' = c"
proof -
  obtain r1 g1 where c1: "choice cs g = (r1, g1)" by (cases "choice cs g")
  obtain r2 g2 where c2: "choice ps g1 = (r2, g2)" by (cases "choice ps g1")
  obtain r3 g3 where c3: "choice ds g2 = (r3, g3)" by (cases "choice ds g2")
  obtain qty g4 where c4: "randint 1 6 g3 = (qty, g4)" by (cases "randint 1 6 g3")
  obtain r5 g5 where c5: "choice discounts g4 = (r5, g5)" by (cases "choice discounts g4")
  from assms c1 obtain cid where r1: "r1 = Inr cid"
    by (cases r1) (simp_all add: generate_transaction_def)
  from assms c1 r1 c2 obtain pid where r2: "r2 = Inr pid"
    by (cases r2) (simp_all add: generate_transaction_def)
  from assms c1 r1 c2 r2 c3 obtain did where r3: "r3 = Inr did"
    by (cases r3) (simp_all add: generate_transaction_def)
  from assms c1 r1 c2 r2 c3 r3 have nf: "\<not> fault ev (SelectPrice i)"
    by (cases "fault ev (SelectPrice i)") (simp_all add: generate_transaction_def)
  from assms c1 r1 c2 r2 c3 r3 nf obtain p where p: "map_of (products (working c)) pid = Some p"
    by (cases "map_of (products (working c)) pid") (simp_all add: generate_transaction_def)
  from assms c1 r1 c2 r2 c3 r3 nf p c4 c5 obtain d where r5: "r5 = Inr d"
    by (cases r5) (simp_all add: generate_transaction_def)
  from assms c1 r1 c2 r2 c3 r3 nf p c4 c5 r5
  have "g' = g5 \<and> c' = c
      \<and> row = \<lparr>customer_id = cid, product_id = pid, date_id = did, quantity = qty,
             unit_price = float64 (price p),
             total_amount = np_round (f_sub (f_mul (float64 (price p)) (of_int qty))
                (np_round (f_mul (f_mul (float64 (price p)) (of_int qty)) d) 2)) 2,
             discount_amount = np_round (f_mul (f_mul (float64 (price p)) (of_int qty)) d) 2\<rparr>"
    by (simp add: generate_transaction_def Let_def)
  with that [of cid g1 pid g2 did g3 p qty g4 d] c1 r1 c2 r2 c3 r3 nf p c4 c5 r5
  show thesis by simp
qed

lemma generate_transaction_Inl:
  assumes "generate_transaction ev c cs ps ds i g = (Inl e, c', g')"
  shows "c' = c \<or> (c' = rejected (SelectPrice i) c \<and> fault ev (SelectPrice i))"
proof -
  obtain r1 g1 where c1: "choice cs g = (r1, g1)" by (cases "choice cs g")
  obtain r2 g2 where c2: "choice ps g1 = (r2, g2)" by (cases "choice ps g1")
  obtain r3 g3 where c3: "choice ds g2 = (r3, g3)" by (cases "choice ds g2")
  obtain qty g4 where c4: "randint 1 6 g3 = (qty, g4)" by (cases "randint 1 6 g3")
  obtain r5 g5 where c5: "choice discounts g4 = (r5, g5)" by (cases "choice discounts g4")
  show ?thesis
  proof (cases r1)
    case Inl
    with assms c1 show ?thesis by (simp add: generate_transaction_def)
  next
    case r1: (Inr cid)
    show ?thesis
    proof (cases r2)
      case Inl
      with assms c1 r1 c2 show ?thesis by (simp add: generate_transaction_def)
    next
      case r2: (Inr pid)
      show ?thesis
      proof (cases r3)
        case Inl
        with assms c1 r1 c2 r2 c3 show ?thesis by (simp add: generate_transaction_def)
      next
        case r3: (Inr did)
        show ?thesis
        proof (cases "fault ev (SelectPrice i)")
          case True
          with assms c1 r1 c2 r2 c3 r3 show ?thesis by (simp add: generate_transaction_def)
        next
          case nf: False
          show ?thesis
          proof (cases "map_of (products (working c)) pid")
            case None
            with assms c1 r1 c2 r2 c3 r3 nf show ?thesis by (simp add: generate_transaction_def)
          next
            case (Some p)
            with assms c1 r1 c2 r2 c3 r3 nf c4 c5 show ?thesis
              by (cases r5) (simp_all add: generate_transaction_def Let_def)
          qed
        qed
      qed
    qed
  qed
qed

lemma generate_rows_Cons_Inr:
  "generate_rows ev c cs ps ds (i # js) acc g = (Inr rows, c', g') \<longleftrightarrow>
     (\<exists>row g1. generate_transaction ev c cs ps ds i g = (Inr row, c, g1)
        \<and> generate_rows ev c cs ps ds js (acc @ [row]) g1 = (Inr rows, c', g'))"
proof (cases "generate_transaction ev c cs ps ds i g")
  case (fields r c1 g1)
  show ?thesis
  proof (cases r)
    case (Inl e)
    with fields show ?thesis by simp
  next
    case (Inr row)
    with fields have "c1 = c" by (auto elim: generate_transaction_Inr)
    with fields Inr show ?thesis by simp
  qed
qed

lemma generate_rows_Inr_conn:
  "generate_rows ev c cs ps ds js acc g = (Inr rows, c', g') \<Longrightarrow> c' = c"
proof (induction js arbitrary: acc g)
  case Nil
  then show ?case by simp
next
  case (Cons j js)
  from Cons.prems obtain row g1 where
    "generate_rows ev c cs ps ds js (acc @ [row]) g1 = (Inr rows, c', g')"
    unfolding generate_rows_Cons_Inr by blast
  from Cons.IH [OF this] show ?case .
qed

lemma generate_rows_Inl_conn:
  "generate_rows ev c cs ps ds js acc g = (Inl e, c', g') \<Longrightarrow>
     c' = c \<or> (\<exists>i\<in>set js. c' = rejected (SelectPrice i) c \<and> fault ev (SelectPrice i))"
proof (induction js arbitrary: acc g)
  case Nil
  then show ?case by simp
next
  case (Cons j js)
  obtain r c1 g1 where gt: "generate_transaction ev c cs ps ds j g = (r, c1, g1)"
    by (cases "generate_transaction ev c cs ps ds j g")
  show ?case
  proof (cases r)
    case (Inl e')
    with Cons.prems gt have "c' = c1" by simp
    with generate_transaction_Inl [of ev c cs ps ds j g e' c1 g1] gt Inl show ?thesis by auto
  next
    case (Inr row)
    with gt have "c1 = c" by (auto elim: generate_transaction_Inr)
    with Cons.prems gt Inr have
      "generate_rows ev c cs ps ds js (acc @ [row]) g1 = (Inl e, c', g')" by simp
    from Cons.IH [OF this] show ?thesis by auto
  qed
qed

lemma generate_rows_inv:
  assumes step: "\<And>i g row g'. generate_transaction ev c cs ps ds i g = (Inr row, c, g') \<Longrightarrow> P row"
  shows "generate_rows ev c cs ps ds js acc g = (Inr rows, c', g') \<Longrightarrow> \<forall>r\<in>set acc. P r
         \<Longrightarrow> \<forall>r\<in>set rows. P r"
proof (induction js arbitrary: acc g)
  case Nil
  then show ?case by simp
next
  case (Cons j js)
  from Cons.prems(1) obtain row g1 where
    r: "generate_transaction ev c cs ps ds j g = (Inr row, c, g1)"
    and rest: "generate_rows ev c cs ps ds js (acc @ [row]) g1 = (Inr rows, c', g')"
    unfolding generate_rows_Cons_Inr by blast
  have "\<forall>r\<in>set (acc @ [row]). P r"
    using Cons.prems(2) step [OF r] by simp
  from Cons.IH [OF rest this] show ?case .
qed

lemma generate_rows_length:
  "generate_rows ev c cs ps ds js acc g = (Inr rows, c', g') \<Longrightarrow> length rows = length acc + length js"
proof (induction js arbitrary: acc g)
  case Nil
  then show ?case by simp
next
  case (Cons j js)
  from Cons.prems obtain row g1 where
    r: "generate_transaction ev c cs ps ds j g = (Inr row, c, g1)"
    and rest: "generate_rows ev c cs ps ds js (acc @ [row]) g1 = (Inr rows, c', g')"
    unfolding generate_rows_Cons_Inr by blast
  from Cons.IH [OF rest] show ?case by simp
qed

lemma load_batches_done:
  "\<not> batch < n \<Longrightarrow> load_batches ev cs ps ds n batch c g = (Inr (), c, g)"
  by (subst load_batches.simps) simp

lemma load_batches_step:
  "batch < n \<Longrightarrow> load_batches ev cs ps ds n batch c g =
     (case generate_rows ev c cs ps ds [batch ..< min (batch + batch_size) n] [] g of
        (Inl e, c', g') \<Rightarrow> (Inl e, c', g')
      | (Inr rows, c', g') \<Rightarrow>
          if fault ev (InsertBatch batch) then (Inl DatabaseError, rejected (InsertBatch batch) c', g')
          else if fault ev (Commit batch)
            then (Inl DatabaseError, rejected (Commit batch) (executemany rows c'), g')
          else load_batches ev cs ps ds n (batch + batch_size) (commit (executemany rows c')) g')"
  by (subst load_batches.simps) (simp add: Let_def split: prod.splits sum.splits)

lemma load_batches_cases:
  assumes "load_batches ev cs ps ds n batch c g = (res, c', g')"
  obtains
    (finished) "\<not> batch < n" "res = Inr ()" "c' = c" "g' = g"
  | (generation) e where "batch < n"
      "generate_rows ev c cs ps ds [batch ..< min (batch + batch_size) n] [] g = (Inl e, c', g')"
      "res = Inl e"
  | (insertion) rows where "batch < n"
      "generate_rows ev c cs ps ds [batch ..< min (batch + batch_size) n] [] g = (Inr rows, c, g')"
      "fault ev (InsertBatch batch)" "res = Inl DatabaseError"
      "c' = rejected (InsertBatch batch) c"
  | (committing) rows where "batch < n"
      "generate_rows ev c cs ps ds [batch ..< min (batch + batch_size) n] [] g = (Inr rows, c, g')"
      "\<not> fault ev (InsertBatch batch)" "fault ev (Commit batch)"
      "res = Inl DatabaseError" "c' = rejected (Commit batch) (executemany rows c)"
  | (continue) rows g1 where "batch < n"
      "generate_rows ev c cs ps ds [batch ..< min (batch + batch_size) n] [] g = (Inr rows, c, g1)"
      "\<not> fault ev (InsertBatch batch)" "\<not> fault ev (Commit batch)"
      "load_batches ev cs ps ds n (batch + batch_size) (commit (executemany rows c)) g1 = (res, c', g')"
proof (cases "batch < n")
  case False
  with assms finished show thesis by (simp add: load_batches_done)
next
  case True
  note step = load_batches_step [OF True, of ev cs ps ds c g]
  obtain r c1 g1 where gr:
    "generate_rows ev c cs ps ds [batch ..< min (batch + batch_size) n] [] g = (r, c1, g1)"
    by (cases "generate_rows ev c cs ps ds [batch ..< min (batch + batch_size) n] [] g")
  show thesis
  proof (cases r)
    case (Inl e)
    from assms have "(Inl e, c1, g1) = (res, c', g')"
      unfolding step gr Inl by simp
    with True gr Inl generation [of e] show thesis by simp
  next
    case (Inr rows)
    from gr Inr have c1: "c1 = c" by (simp add: generate_rows_Inr_conn)
    show thesis
    proof (cases "fault ev (InsertBatch batch)")
      case True
      from assms have "(Inl DatabaseError, rejected (InsertBatch batch) c, g1) = (res, c', g')"
        unfolding step gr Inr c1 using True by simp
      with \<open>batch < n\<close> gr Inr c1 True insertion [of rows] show thesis by simp
    next
      case False
      note nf = this
      show thesis
      proof (cases "fault ev (Commit batch)")
        case True
        from assms have
          "(Inl DatabaseError, rejected (Commit batch) (executemany rows c), g1) = (res, c', g')"
          unfolding step gr Inr c1 using True nf by simp
        with \<open>batch < n\<close> gr Inr c1 nf True committing [of rows] show thesis by simp
      next
        case False
        from assms have
          "load_batches ev cs ps ds n (batch + batch_size) (commit (executemany rows c)) g1 = (res, c', g')"
          unfolding step gr Inr c1 using False nf by simp
        with \<open>batch < n\<close> gr Inr c1 nf False continue [of rows g1] show thesis by simp
      qed
    qed
  qed
qed

lemma batch_log_simps:
  "batch_log [] = []" "batch_log (b # bs) = BulkInsert b # Committed # batch_log bs"
  by (simp_all add: batch_log_def)

lemma batch_log_append: "batch_log (as @ bs) = batch_log as @ batch_log bs"
  by (simp add: batch_log_def)

lemma add_rows_simps:
  "add_rows w [] = w" "add_rows (add_rows w a) b = add_rows w (a @ b)"
  "products (add_rows w a) = products w" "customers (add_rows w a) = customers w"
  "date_dimension (add_rows w a) = date_dimension w"
  "sales_transactions (add_rows w a) = sales_transactions w @ a"
  by (simp_all add: add_rows_def)

lemma conn_simps:
  "events (executemany rows c) = events c @ [BulkInsert rows]"
  "working (executemany rows c) = add_rows (working c) rows"
  "durable (executemany rows c) = durable c"
  "events (commit c) = events c @ [Committed]"
  "working (commit c) = working c"
  "durable (commit c) = working c"
  "events (rollback c) = events c"
  "working (rollback c) = durable c"
  "durable (rollback c) = durable c"
  "events (get_connection d) = []"
  "working (get_connection d) = d"
  "durable (get_connection d) = d"
  "events (rejected s c) = events c @ [Rejected s]"
  "working (rejected s c) = working c"
  "durable (rejected s c) = durable c"
  by (simp_all add: executemany_def commit_def rollback_def get_connection_def add_rows_def
      rejected_def)

lemma batch_rows_length:
  assumes "generate_rows ev c cs ps ds [batch ..< min (batch + batch_size) n] [] g = (Inr rows, c', g')"
    and "batch < n"
  shows "length rows = min (batch + batch_size) n - batch" "0 < length rows"
    "length rows \<le> batch_size"
  using generate_rows_length [OF assms(1)] assms(2) by (auto simp: batch_size_def)

lemma load_batches_shape:
  assumes step0: "\<forall>c i g row g'. products (working c) = pr \<longrightarrow>
      generate_transaction ev c cs ps ds i g = (Inr row, c, g') \<longrightarrow> P row"
  shows "load_batches ev cs ps ds n batch c g = (res, c', g') \<Longrightarrow> products (working c) = pr \<Longrightarrow>
    \<exists>bs pend rj. events c' = events c @ batch_log bs @ map BulkInsert pend @ map Rejected rj
      \<and> working c' = add_rows (working c) (concat bs @ concat pend)
      \<and> durable c' = (if bs = [] then durable c else add_rows (working c) (concat bs))
      \<and> length pend \<le> 1
      \<and> length rj \<le> 1
      \<and> (\<forall>b\<in>set bs. \<forall>r\<in>set b. P r)
      \<and> (\<forall>b\<in>set pend. \<forall>r\<in>set b. P r)
      \<and> (\<forall>b\<in>set bs. 0 < length b \<and> length b \<le> batch_size)
      \<and> (\<forall>b\<in>set (butlast bs). length b = batch_size)
      \<and> (bs \<noteq> [] \<longrightarrow> batch < n)
      \<and> (res = Inr () \<longrightarrow> pend = [] \<and> rj = [] \<and> length (concat bs) = n - batch)
      \<and> (res \<noteq> Inr () \<longrightarrow> (\<forall>b\<in>set bs. length b = batch_size)
            \<and> batch + length (concat bs) < n)"
proof (induction "n - batch" arbitrary: batch c g rule: less_induct)
  case less
  have step: "\<And>c i g row g'. products (working c) = pr \<Longrightarrow>
      generate_transaction ev c cs ps ds i g = (Inr row, c, g') \<Longrightarrow> P row"
    using step0 by blast
  from less.prems(1) show ?case
  proof (cases rule: load_batches_cases)
    case finished
    then show ?thesis
      by (intro exI [of _ "[]"]) (simp add: batch_log_simps add_rows_simps)
  next
    case (generation e)
    from generate_rows_Inl_conn [OF generation(2)] obtain rj where
      rj: "c' = (if rj = [] then c else rejected (hd rj) c)" "length rj \<le> 1"
    proof (elim disjE bexE conjE)
      assume "c' = c"
      then show thesis by (intro that [of "[]"]) simp_all
    next
      fix i assume "c' = rejected (SelectPrice i) c"
      then show thesis by (intro that [of "[SelectPrice i]"]) simp_all
    qed
    have k: "events c' = events c @ batch_log [] @ map BulkInsert [] @ map Rejected rj"
      "working c' = working c" "durable c' = durable c"
      using rj by (cases rj; simp add: conn_simps batch_log_simps)+
    show ?thesis
      apply (rule exI [of _ "[]"], rule exI [of _ "[]"], rule exI [of _ rj])
      using k rj(2) generation(1,3) apply (simp add: add_rows_simps)
      done
  next
    case (insertion rows)
    show ?thesis
      apply (rule exI [of _ "[]"], rule exI [of _ "[]"], rule exI [of _ "[InsertBatch batch]"])
      using insertion apply (simp add: batch_log_simps add_rows_simps conn_simps)
      done
  next
    case (committing rows)
    have "\<forall>r\<in>set rows. P r"
      using generate_rows_inv [of ev c cs ps ds P, OF _ committing(2)]
        step [OF less.prems(2)] by simp
    with committing show ?thesis
      apply -
      apply (rule exI [of _ "[]"], rule exI [of _ "[rows]"], rule exI [of _ "[Commit batch]"])
      apply (simp add: batch_log_simps add_rows_simps conn_simps)
      done
  next
    case (continue rows g1)
    let ?c1 = "commit (executemany rows c)"
    have len: "length rows = min (batch + batch_size) n - batch" "0 < length rows"
      "length rows \<le> batch_size"
      using batch_rows_length [OF continue(2) continue(1)] by simp_all
    have P: "\<forall>r\<in>set rows. P r"
      using generate_rows_inv [of ev c cs ps ds P, OF _ continue(2)]
        step [OF less.prems(2)] by simp
    have dec: "n - (batch + batch_size) < n - batch"
      using continue(1) by (simp add: batch_size_def)
    have pr1: "products (working ?c1) = pr"
      using less.prems(2) by (simp add: conn_simps add_rows_simps)
    from less.hyps [OF dec continue(5) pr1] obtain bs pend rj where
      ev: "events c' = events ?c1 @ batch_log bs @ map BulkInsert pend @ map Rejected rj"
      and wk: "working c' = add_rows (working ?c1) (concat bs @ concat pend)"
      and du: "durable c' = (if bs = [] then durable ?c1 else add_rows (working ?c1) (concat bs))"
      and pe: "length pend \<le> 1"
      and rj: "length rj \<le> 1"
      and Pbs: "\<forall>b\<in>set bs. \<forall>r\<in>set b. P r"
      and Ppe: "\<forall>b\<in>set pend. \<forall>r\<in>set b. P r"
      and lbs: "\<forall>b\<in>set bs. 0 < length b \<and> length b \<le> batch_size"
      and full: "\<forall>b\<in>set (butlast bs). length b = batch_size"
      and more: "bs \<noteq> [] \<longrightarrow> batch + batch_size < n"
      and ok: "res = Inr () \<longrightarrow> pend = [] \<and> rj = [] \<and> length (concat bs) = n - (batch + batch_size)"
      and bad: "res \<noteq> Inr () \<longrightarrow> (\<forall>b\<in>set bs. length b = batch_size)
            \<and> batch + batch_size + length (concat bs) < n"
      by (elim exE conjE) (rule that, assumption+)
    have c1: "events c' = events c @ batch_log (rows # bs) @ map BulkInsert pend @ map Rejected rj"
      using ev by (simp add: conn_simps batch_log_simps)
    have c2: "working c' = add_rows (working c) (concat (rows # bs) @ concat pend)"
      using wk by (simp add: conn_simps add_rows_simps)
    have c3: "durable c' = (if rows # bs = [] then durable c
        else add_rows (working c) (concat (rows # bs)))"
      using du by (simp add: conn_simps add_rows_simps)
    have c8: "rows # bs \<noteq> [] \<longrightarrow> batch < n"
      using continue(1) by simp
    have c5: "\<forall>b\<in>set (rows # bs). \<forall>r\<in>set b. P r"
      using P Pbs by simp
    have c6: "\<forall>b\<in>set (rows # bs). 0 < length b \<and> length b \<le> batch_size"
      using len(2,3) lbs by simp
    have c7: "\<forall>b\<in>set (butlast (rows # bs)). length b = batch_size"
      using full more len(1) by auto
    have c9: "res = Inr () \<longrightarrow> pend = [] \<and> rj = [] \<and> length (concat (rows # bs)) = n - batch"
      using ok len(1) continue(1) by auto
    have c10: "res \<noteq> Inr () \<longrightarrow> (\<forall>b\<in>set (rows # bs). length b = batch_size)
            \<and> batch + length (concat (rows # bs)) < n"
      using bad len(1) by auto
    show ?thesis
      apply (rule exI [of _ "rows # bs"], rule exI [of _ pend], rule exI [of _ rj])
      using c1 c2 c3 pe rj c5 Ppe c6 c7 c8 c9 c10 apply (intro conjI)
                apply assumption+
      done
  qed
qed

lemma run_cases:
  assumes "generate_and_load_transactions ev n d g = (res, c, g')"
  obtains
    (connect) "fault ev Connect" "res = Inl DatabaseError" "c = get_connection d" "g' = g"
  | (select) "\<not> fault ev Connect"
      "fault ev (SelectKeys Customers) \<or> fault ev (SelectKeys Products)
         \<or> fault ev (SelectKeys DateDimension)"
      "res = Inl DatabaseError" "c = rollback (get_connection d)" "g' = g"
  | (batch) e c1 where "\<not> fault ev Connect" "\<not> fault ev (SelectKeys Customers)"
      "\<not> fault ev (SelectKeys Products)" "\<not> fault ev (SelectKeys DateDimension)"
      "load_batches ev (select_keys (customers d)) (select_keys (products d))
         (select_keys (date_dimension d)) n 0 (get_connection d) g = (Inl e, c1, g')"
      "res = Inl e" "c = rollback c1"
  | (exit) c1 where "\<not> fault ev Connect" "\<not> fault ev (SelectKeys Customers)"
      "\<not> fault ev (SelectKeys Products)" "\<not> fault ev (SelectKeys DateDimension)"
      "load_batches ev (select_keys (customers d)) (select_keys (products d))
         (select_keys (date_dimension d)) n 0 (get_connection d) g = (Inr (), c1, g')"
      "fault ev ExitCommit" "res = Inl DatabaseError" "c = rollback c1"
  | (success) c1 where "\<not> fault ev Connect" "\<not> fault ev (SelectKeys Customers)"
      "\<not> fault ev (SelectKeys Products)" "\<not> fault ev (SelectKeys DateDimension)"
      "load_batches ev (select_keys (customers d)) (select_keys (products d))
         (select_keys (date_dimension d)) n 0 (get_connection d) g = (Inr (), c1, g')"
      "\<not> fault ev ExitCommit" "res = Inr ()" "c = commit c1"
proof (cases "fault ev Connect")
  case True
  with assms connect show thesis
    by (simp add: generate_and_load_transactions_def)
next
  case nc: False
  show thesis
  proof (cases "fault ev (SelectKeys Customers) \<or> fault ev (SelectKeys Products)
         \<or> fault ev (SelectKeys DateDimension)")
    case True
    with assms nc select show thesis
      by (simp add: generate_and_load_transactions_def)
  next
    case ns: False
    obtain r c1 g1 where lb:
      "load_batches ev (select_keys (customers d)) (select_keys (products d))
         (select_keys (date_dimension d)) n 0 (get_connection d) g = (r, c1, g1)"
      by (cases "load_batches ev (select_keys (customers d)) (select_keys (products d))
         (select_keys (date_dimension d)) n 0 (get_connection d) g")
    have unfold: "generate_and_load_transactions ev n d g =
        (case (r, c1, g1) of
           (Inl e, c', g') \<Rightarrow> (Inl e, rollback c', g')
         | (Inr u, c', g') \<Rightarrow>
             if fault ev ExitCommit then (Inl DatabaseError, rollback c', g')
             else (Inr (), commit c', g'))"
      unfolding generate_and_load_transactions_def Let_def conn_simps lb [symmetric]
      using nc ns by simp
    show thesis
    proof (cases r)
      case (Inl e)
      from assms have "(Inl e, rollback c1, g1) = (res, c, g')"
        unfolding unfold Inl by simp
      then have "res = Inl e" "c = rollback c1" "g1 = g'" by simp_all
      with nc ns lb Inl show thesis by (intro batch [of e c1]) simp_all
    next
      case (Inr u)
      show thesis
      proof (cases "fault ev ExitCommit")
        case True
        from assms have "(Inl DatabaseError, rollback c1, g1) = (res, c, g')"
          unfolding unfold Inr using True by simp
        then have "res = Inl DatabaseError" "c = rollback c1" "g1 = g'" by simp_all
        with nc ns lb Inr True show thesis by (intro exit [of c1]) simp_all
      next
        case False
        from assms have "(Inr (), commit c1, g1) = (res, c, g')"
          unfolding unfold Inr using False by simp
        then have "res = Inr ()" "c = commit c1" "g1 = g'" by simp_all
        with nc ns lb Inr False show thesis by (intro success [of c1]) simp_all
      qed
    qed
  qed
qed

lemma generate_transaction_ok:
  assumes "cs \<noteq> []" "ps \<noteq> []" "ds \<noteq> []" "\<not> fault ev (SelectPrice i)"
    and "set ps \<subseteq> fst ` set (products (working c))"
  shows "\<exists>row g'. generate_transaction ev c cs ps ds i g = (Inr row, c, g')"
proof -
  obtain cid g1 where c1: "choice cs g = (Inr cid, g1)" using choice_ok [OF assms(1)] by blast
  obtain pid g2 where c2: "choice ps g1 = (Inr pid, g2)" using choice_ok [OF assms(2)] by blast
  obtain did g3 where c3: "choice ds g2 = (Inr did, g3)" using choice_ok [OF assms(3)] by blast
  obtain qty g4 where c4: "randint 1 6 g3 = (qty, g4)" by (cases "randint 1 6 g3")
  have "discounts \<noteq> []" by (simp add: discounts_def)
  then obtain dp g5 where c5: "choice discounts g4 = (Inr dp, g5)" using choice_ok by blast
  have "pid \<in> fst ` set (products (working c))" using choice_mem [OF c2] assms(5) by blast
  then obtain p where p: "map_of (products (working c)) pid = Some p"
    by (metis domD dom_map_of_conv_image_fst)
  show ?thesis
    using c1 c2 c3 c4 c5 p assms(4) by (simp add: generate_transaction_def Let_def)
qed

lemma generate_transaction_rejected:
  assumes "cs \<noteq> []" "ps \<noteq> []" "ds \<noteq> []" "fault ev (SelectPrice i)"
  shows "\<exists>g'. generate_transaction ev c cs ps ds i g
      = (Inl DatabaseError, rejected (SelectPrice i) c, g')"
proof -
  obtain cid g1 where c1: "choice cs g = (Inr cid, g1)" using choice_ok [OF assms(1)] by blast
  obtain pid g2 where c2: "choice ps g1 = (Inr pid, g2)" using choice_ok [OF assms(2)] by blast
  obtain did g3 where c3: "choice ds g2 = (Inr did, g3)" using choice_ok [OF assms(3)] by blast
  show ?thesis
    using c1 c2 c3 assms(4) by (simp add: generate_transaction_def)
qed

lemma generate_rows_ok:
  assumes "cs \<noteq> []" "ps \<noteq> []" "ds \<noteq> []" "\<forall>i\<in>set js. \<not> fault ev (SelectPrice i)"
    and "set ps \<subseteq> fst ` set (products (working c))"
  shows "\<exists>rows g'. generate_rows ev c cs ps ds js acc g = (Inr rows, c, g')"
  using assms(4)
proof (induction js arbitrary: acc g)
  case Nil
  then show ?case by simp
next
  case (Cons j js)
  from Cons.prems have "\<not> fault ev (SelectPrice j)" by simp
  from generate_transaction_ok [OF assms(1-3) this assms(5)]
  obtain row g1 where r: "generate_transaction ev c cs ps ds j g = (Inr row, c, g1)" by blast
  from Cons.prems have "\<forall>i\<in>set js. \<not> fault ev (SelectPrice i)" by simp
  from Cons.IH [OF this, of "acc @ [row]" g1] r show ?case by simp
qed

lemma generate_rows_rejected:
  assumes "cs \<noteq> []" "ps \<noteq> []" "ds \<noteq> []"
    and "set ps \<subseteq> fst ` set (products (working c))"
    and "\<forall>j\<in>set pre. \<not> fault ev (SelectPrice j)" "fault ev (SelectPrice i)"
  shows "\<exists>g'. generate_rows ev c cs ps ds (pre @ i # post) acc g
      = (Inl DatabaseError, rejected (SelectPrice i) c, g')"
  using assms(5)
proof (induction pre arbitrary: acc g)
  case Nil
  from generate_transaction_rejected [OF assms(1-3,6), of c g] show ?case by auto
next
  case (Cons j pre)
  from Cons.prems have "\<not> fault ev (SelectPrice j)" by simp
  from generate_transaction_ok [OF assms(1-3) this assms(4)]
  obtain row g1 where r: "generate_transaction ev c cs ps ds j g = (Inr row, c, g1)" by blast
  from Cons.prems have "\<forall>i\<in>set pre. \<not> fault ev (SelectPrice i)" by simp
  from Cons.IH [OF this, of "acc @ [row]" g1] r show ?case by simp
qed

lemma generate_transaction_quiet:
  assumes "\<not> fault ev (SelectPrice i)"
  shows "generate_transaction (ev\<lparr>fault := \<lambda>s. False\<rparr>) c cs ps ds i g
       = generate_transaction ev c cs ps ds i g"
proof -
  obtain r1 g1 where c1: "choice cs g = (r1, g1)" by (cases "choice cs g")
  obtain r2 g2 where c2: "choice ps g1 = (r2, g2)" by (cases "choice ps g1")
  obtain r3 g3 where c3: "choice ds g2 = (r3, g3)" by (cases "choice ds g2")
  show ?thesis
    unfolding generate_transaction_def c1
    by (cases r1; cases r2; cases r3) (simp_all add: c2 c3 assms)
qed

lemma generate_rows_quiet:
  "\<forall>i\<in>set js. \<not> fault ev (SelectPrice i) \<Longrightarrow>
     generate_rows (ev\<lparr>fault := \<lambda>s. False\<rparr>) c cs ps ds js acc g
       = generate_rows ev c cs ps ds js acc g"
  by (induction js arbitrary: c acc g)
     (simp_all add: generate_transaction_quiet split: prod.splits sum.splits)

lemma load_batches_ok:
  assumes "cs \<noteq> []" "ps \<noteq> []" "ds \<noteq> []" "\<forall>s. \<not> fault ev s"
  shows "load_batches ev cs ps ds n batch c g = (res, c', g') \<Longrightarrow>
    set ps \<subseteq> fst ` set (products (working c)) \<Longrightarrow> res = Inr ()"
proof (induction "n - batch" arbitrary: batch c g rule: less_induct)
  case less
  from less.prems(1) show ?case
  proof (cases rule: load_batches_cases)
    case finished
    then show ?thesis by simp
  next
    case (generation e)
    have "\<forall>i\<in>set [batch ..< min (batch + batch_size) n]. \<not> fault ev (SelectPrice i)"
      using assms(4) by simp
    from generate_rows_ok [OF assms(1-3) this less.prems(2), of "[]" g] generation(2)
    show ?thesis by simp
  next
    case (insertion rows)
    with assms(4) show ?thesis by simp
  next
    case (committing rows)
    with assms(4) show ?thesis by simp
  next
    case (continue rows g1)
    have dec: "n - (batch + batch_size) < n - batch"
      using continue(1) by (simp add: batch_size_def)
    have "set ps \<subseteq> fst ` set (products (working (commit (executemany rows c))))"
      using less.prems(2) by (simp add: conn_simps add_rows_simps)
    from less.hyps [OF dec continue(5) this] show ?thesis .
  qed
qed

lemma generate_transaction_empty:
  assumes "cs = [] \<or> ps = [] \<or> ds = []"
  shows "\<exists>g'. generate_transaction ev c cs ps ds i g = (Inl ValueError, c, g')
    \<and> pos g' \<le> pos g + 2 \<and> raw g' = raw g"
proof (cases "cs = []")
  case True
  then show ?thesis by (simp add: generate_transaction_def choice_def)
next
  case ncs: False
  obtain cid g1 where c1: "choice cs g = (Inr cid, g1)" using choice_ok [OF ncs] by blast
  then have g1: "pos g1 = pos g + 1" "raw g1 = raw g"
    using ncs by (auto simp: choice_def draw_def Let_def)
  show ?thesis
  proof (cases "ps = []")
    case True
    with c1 g1 show ?thesis by (simp add: generate_transaction_def choice_def)
  next
    case nps: False
    obtain pid g2 where c2: "choice ps g1 = (Inr pid, g2)" using choice_ok [OF nps] by blast
    then have g2: "pos g2 = pos g1 + 1" "raw g2 = raw g1"
      using nps by (auto simp: choice_def draw_def Let_def)
    from assms ncs nps have "ds = []" by simp
    with c1 c2 g1 g2 show ?thesis by (simp add: generate_transaction_def choice_def)
  qed
qed

lemma load_batches_empty_keys:
  assumes "cs = [] \<or> ps = [] \<or> ds = []" "0 < n"
  shows "\<exists>g'. load_batches ev cs ps ds n 0 c g = (Inl ValueError, c, g')
    \<and> pos g' \<le> pos g + 2 \<and> raw g' = raw g"
proof -
  have "[0 ..< min (0 + batch_size) n] = 0 # [1 ..< min (0 + batch_size) n]"
    using assms(2) by (simp add: batch_size_def upt_conv_Cons)
  moreover obtain g' where "generate_transaction ev c cs ps ds 0 g = (Inl ValueError, c, g')"
    "pos g' \<le> pos g + 2" "raw g' = raw g"
    using generate_transaction_empty [OF assms(1)] by blast
  ultimately show ?thesis
    using assms(2) by (simp add: load_batches_step)
qed

lemma inserted_batch_log:
  "concat (map (\<lambda>e. case e of BulkInsert rows \<Rightarrow> rows | _ \<Rightarrow> []) (batch_log bs)) = concat bs"
  by (induction bs) (simp_all add: batch_log_simps)

lemma inserted_pending:
  "concat (map ((\<lambda>e. case e of BulkInsert rows \<Rightarrow> rows | _ \<Rightarrow> []) \<circ> BulkInsert) pend) = concat pend"
  by (induction pend) simp_all

lemma inserted_rejected:
  "concat (map ((\<lambda>e. case e of BulkInsert rows \<Rightarrow> rows | _ \<Rightarrow> []) \<circ> Rejected) rj) = []"
  by (induction rj) simp_all

lemma run_shape:
  assumes st: "\<forall>c i g row g'. products (working c) = products d \<longrightarrow>
      generate_transaction ev c (select_keys (customers d)) (select_keys (products d))
        (select_keys (date_dimension d)) i g = (Inr row, c, g') \<longrightarrow> P row"
    and run: "generate_and_load_transactions ev n d g = (res, c, g')"
  shows "\<exists>bs pend fin. events c = batch_log bs @ map BulkInsert pend @ fin
      \<and> durable c = add_rows d (concat bs)
      \<and> working c = durable c
      \<and> length pend \<le> 1
      \<and> (\<forall>b\<in>set bs. \<forall>r\<in>set b. P r)
      \<and> (\<forall>b\<in>set pend. \<forall>r\<in>set b. P r)
      \<and> (\<forall>b\<in>set bs. 0 < length b \<and> length b \<le> batch_size)
      \<and> (\<forall>b\<in>set (butlast bs). length b = batch_size)
      \<and> (res = Inr () \<longrightarrow> pend = [] \<and> fin = [Committed] \<and> length (concat bs) = n)
      \<and> (res \<noteq> Inr () \<longrightarrow> (\<exists>rj. fin = map Rejected rj))"
proof -
  let ?c0 = "get_connection d"
  have loop: "\<exists>bs pend rj. events c1 = batch_log bs @ map BulkInsert pend @ map Rejected rj
      \<and> working c1 = add_rows d (concat bs @ concat pend)
      \<and> durable c1 = add_rows d (concat bs)
      \<and> length pend \<le> 1
      \<and> (\<forall>b\<in>set bs. \<forall>r\<in>set b. P r)
      \<and> (\<forall>b\<in>set pend. \<forall>r\<in>set b. P r)
      \<and> (\<forall>b\<in>set bs. 0 < length b \<and> length b \<le> batch_size)
      \<and> (\<forall>b\<in>set (butlast bs). length b = batch_size)
      \<and> (r = Inr () \<longrightarrow> pend = [] \<and> rj = [] \<and> length (concat bs) = n)"
    if "load_batches ev (select_keys (customers d)) (select_keys (products d))
         (select_keys (date_dimension d)) n 0 ?c0 g = (r, c1, g')" for r c1
  proof -
    have "products (working ?c0) = products d" by (simp add: conn_simps)
    from load_batches_shape [OF st that this] obtain bs pend rj where
      sh: "events c1 = events ?c0 @ batch_log bs @ map BulkInsert pend @ map Rejected rj"
        "working c1 = add_rows (working ?c0) (concat bs @ concat pend)"
        "durable c1 = (if bs = [] then durable ?c0 else add_rows (working ?c0) (concat bs))"
        "length pend \<le> 1"
        "length rj \<le> 1"
        "\<forall>b\<in>set bs. \<forall>r\<in>set b. P r"
        "\<forall>b\<in>set pend. \<forall>r\<in>set b. P r"
        "\<forall>b\<in>set bs. 0 < length b \<and> length b \<le> batch_size"
        "\<forall>b\<in>set (butlast bs). length b = batch_size"
        "r = Inr () \<longrightarrow> pend = [] \<and> rj = [] \<and> length (concat bs) = n - 0"
      by (elim exE conjE) (rule that, assumption+)
    have k1: "events c1 = batch_log bs @ map BulkInsert pend @ map Rejected rj"
      using sh(1) by (simp add: conn_simps)
    have k2: "working c1 = add_rows d (concat bs @ concat pend)"
      using sh(2) by (simp add: conn_simps)
    have k3: "durable c1 = add_rows d (concat bs)"
      using sh(3) by (simp add: conn_simps add_rows_simps)
    have k9: "r = Inr () \<longrightarrow> pend = [] \<and> rj = [] \<and> length (concat bs) = n"
      using sh(10) by simp
    show ?thesis
      apply (rule exI [of _ bs], rule exI [of _ pend], rule exI [of _ rj])
      using k1 k2 k3 sh(4,6-9) k9 apply (intro conjI)
              apply assumption+
      done
  qed
  from run show ?thesis
  proof (cases rule: run_cases)
    case connect
    then show ?thesis
      by (intro exI [of _ "[]"]) (simp add: batch_log_simps add_rows_simps conn_simps)
  next
    case select
    then show ?thesis
      by (intro exI [of _ "[]"]) (simp add: batch_log_simps add_rows_simps conn_simps)
  next
    case (batch e c1)
    from loop [OF batch(5)] obtain bs pend rj where
      sh: "events c1 = batch_log bs @ map BulkInsert pend @ map Rejected rj"
        "durable c1 = add_rows d (concat bs)"
        "length pend \<le> 1"
        "\<forall>b\<in>set bs. \<forall>r\<in>set b. P r"
        "\<forall>b\<in>set pend. \<forall>r\<in>set b. P r"
        "\<forall>b\<in>set bs. 0 < length b \<and> length b \<le> batch_size"
        "\<forall>b\<in>set (butlast bs). length b = batch_size"
      by (elim exE conjE) (rule that, assumption+)
    have k: "events c = batch_log bs @ map BulkInsert pend @ map Rejected rj"
      "durable c = add_rows d (concat bs)" "working c = durable c"
      "res \<noteq> Inr ()"
      using sh(1,2) batch(6,7) by (simp_all add: conn_simps)
    show ?thesis
      apply (rule exI [of _ bs], rule exI [of _ pend], rule exI [of _ "map Rejected rj"])
      using k sh(3-7) apply simp
      apply blast
      done
  next
    case (exit c1)
    from loop [OF exit(5)] obtain bs pend rj where
      sh: "events c1 = batch_log bs @ map BulkInsert pend @ map Rejected rj"
        "durable c1 = add_rows d (concat bs)"
        "length pend \<le> 1"
        "\<forall>b\<in>set bs. \<forall>r\<in>set b. P r"
        "\<forall>b\<in>set pend. \<forall>r\<in>set b. P r"
        "\<forall>b\<in>set bs. 0 < length b \<and> length b \<le> batch_size"
        "\<forall>b\<in>set (butlast bs). length b = batch_size"
      by (elim exE conjE) (rule that, assumption+)
    have k: "events c = batch_log bs @ map BulkInsert pend @ map Rejected rj"
      "durable c = add_rows d (concat bs)" "working c = durable c"
      "res \<noteq> Inr ()"
      using sh(1,2) exit(7,8) by (simp_all add: conn_simps)
    show ?thesis
      apply (rule exI [of _ bs], rule exI [of _ pend], rule exI [of _ "map Rejected rj"])
      using k sh(3-7) apply simp
      apply blast
      done
  next
    case (success c1)
    from loop [OF success(5)] obtain bs pend rj where
      sh: "events c1 = batch_log bs @ map BulkInsert pend @ map Rejected rj"
        "working c1 = add_rows d (concat bs @ concat pend)"
        "length pend \<le> 1"
        "\<forall>b\<in>set bs. \<forall>r\<in>set b. P r"
        "\<forall>b\<in>set pend. \<forall>r\<in>set b. P r"
        "\<forall>b\<in>set bs. 0 < length b \<and> length b \<le> batch_size"
        "\<forall>b\<in>set (butlast bs). length b = batch_size"
        "pend = [] \<and> rj = [] \<and> length (concat bs) = n"
      by (elim exE conjE) (rule that, simp_all)
    have k: "events c = batch_log bs @ map BulkInsert pend @ [Committed]"
      "durable c = add_rows d (concat bs)" "working c = durable c"
      "res = Inr ()"
      using sh(1,2,8) success(7,8) by (simp_all add: conn_simps)
    show ?thesis
      apply (rule exI [of _ bs], rule exI [of _ pend], rule exI [of _ "[Committed]"])
      using k sh(3-8) apply simp
      done
  qed
qed

lemma run_inserted:
  assumes st: "\<forall>c i g row g'. products (working c) = products d \<longrightarrow>
      generate_transaction ev c (select_keys (customers d)) (select_keys (products d))
        (select_keys (date_dimension d)) i g = (Inr row, c, g') \<longrightarrow> P row"
    and r: "r \<in> set (inserted_rows (fst (snd (generate_and_load_transactions ev n d g))))"
  shows "P r"
proof -
  obtain res c g' where run: "generate_and_load_transactions ev n d g = (res, c, g')"
    by (cases "generate_and_load_transactions ev n d g")
  from run_shape [OF st run] show ?thesis
  proof (elim exE conjE)
    fix bs pend fin
    assume e: "events c = batch_log bs @ map BulkInsert pend @ fin"
      and P: "\<forall>b\<in>set bs. \<forall>r\<in>set b. P r" "\<forall>b\<in>set pend. \<forall>r\<in>set b. P r"
      and ok: "res = Inr () \<longrightarrow> pend = [] \<and> fin = [Committed] \<and> length (concat bs) = n"
      and bad: "res \<noteq> Inr () \<longrightarrow> (\<exists>rj. fin = map Rejected rj)"
    from ok bad have "fin = [Committed] \<or> (\<exists>rj. fin = map Rejected rj)"
      by (cases "res = Inr ()") simp_all
    with e have "inserted_rows c = concat bs @ concat pend"
      by (auto simp: inserted_rows_def inserted_batch_log inserted_pending inserted_rejected)
    with r run P show ?thesis by auto
  qed
qed

section \<open>The transaction synthesiser: the claims\<close>

text \<open>
  C1. Every row that \<^verbatim>\<open>generate_and_load_transactions\<close> hands to the store carries a
  customer key, a product key and a date key taken from the key lists the run read from
  the customers, products and date\_dimension tables before it generated anything.
\<close>

theorem fact_keys_from_fetched_lists:
  assumes "r \<in> set (inserted_rows (fst (snd (generate_and_load_transactions ev n d g))))"
  shows "customer_id r \<in> set (select_keys (customers d))
    \<and> product_id r \<in> set (select_keys (products d))
    \<and> date_id r \<in> set (select_keys (date_dimension d))"
proof (rule run_inserted [OF _ assms], intro allI impI)
  fix c i g row g'
  assume "generate_transaction ev c (select_keys (customers d)) (select_keys (products d))
        (select_keys (date_dimension d)) i g = (Inr row, c, g')"
  then show "customer_id row \<in> set (select_keys (customers d))
    \<and> product_id row \<in> set (select_keys (products d))
    \<and> date_id row \<in> set (select_keys (date_dimension d))"
    by (elim generate_transaction_Inr) (auto dest: choice_mem)
qed

lemma select_keys_empty: "select_keys t = [] \<longleftrightarrow> t = []"
  by (simp add: select_keys_def)

lemma run_success:
  assumes nf: "\<forall>s. \<not> fault ev s"
    and keys: "n = 0 \<or> (customers d \<noteq> [] \<and> products d \<noteq> [] \<and> date_dimension d \<noteq> [])"
  shows "\<exists>bs c g'. generate_and_load_transactions ev n d g = (Inr (), c, g')
      \<and> events c = batch_log bs @ [Committed]
      \<and> durable c = add_rows d (concat bs)
      \<and> working c = durable c
      \<and> length (concat bs) = n
      \<and> (\<forall>b\<in>set bs. 0 < length b \<and> length b \<le> batch_size)
      \<and> (\<forall>b\<in>set (butlast bs). length b = batch_size)"
proof -
  obtain res c g' where run: "generate_and_load_transactions ev n d g = (res, c, g')"
    by (cases "generate_and_load_transactions ev n d g")
  from run have res: "res = Inr ()"
  proof (cases rule: run_cases)
    case connect
    with nf show ?thesis by simp
  next
    case select
    with nf show ?thesis by auto
  next
    case (batch e c1)
    show ?thesis
    proof (cases "n = 0")
      case True
      with batch(5) show ?thesis by (simp add: load_batches_done)
    next
      case False
      with keys have k: "select_keys (customers d) \<noteq> []" "select_keys (products d) \<noteq> []"
        "select_keys (date_dimension d) \<noteq> []"
        by (simp_all add: select_keys_empty)
      have "set (select_keys (products d)) \<subseteq> fst ` set (products (working (get_connection d)))"
        by (simp add: select_keys_def conn_simps)
      from load_batches_ok [OF k nf batch(5) this] show ?thesis by simp
    qed
  next
    case (exit c1)
    with nf show ?thesis by simp
  next
    case (success c1)
    then show ?thesis by simp
  qed
  have "\<forall>c i g row g'. products (working c) = products d \<longrightarrow>
      generate_transaction ev c (select_keys (customers d)) (select_keys (products d))
        (select_keys (date_dimension d)) i g = (Inr row, c, g') \<longrightarrow> True"
    by simp
  from run_shape [OF this run] show ?thesis
  proof (elim exE conjE)
    fix bs pend fin
    assume e: "events c = batch_log bs @ map BulkInsert pend @ fin"
      and d: "durable c = add_rows d (concat bs)" and w: "working c = durable c"
      and l: "\<forall>b\<in>set bs. 0 < length b \<and> length b \<le> batch_size"
      and f: "\<forall>b\<in>set (butlast bs). length b = batch_size"
      and ok: "res = Inr () \<longrightarrow> pend = [] \<and> fin = [Committed] \<and> length (concat bs) = n"
    from ok res have k: "pend = []" "fin = [Committed]" "length (concat bs) = n" by simp_all
    show ?thesis
      apply (rule exI [of _ bs], rule exI [of _ c], rule exI [of _ g'])
      using run res e d w l f k apply simp
      done
  qed
qed

lemma committed_batches_inserted:
  "events c = batch_log bs @ [Committed] \<Longrightarrow> inserted_rows c = concat bs"
  by (simp add: inserted_rows_def inserted_batch_log)

lemma quiet_run_inserts:
  "length (inserted_rows (fst (snd (generate_and_load_transactions quiet_store 1 small_shop fixed_seed)))) = 1"
proof -
  have "\<forall>s. \<not> fault quiet_store s" by (simp add: quiet_store_def)
  moreover have "customers small_shop \<noteq> [] \<and> products small_shop \<noteq> []
      \<and> date_dimension small_shop \<noteq> []"
    by (simp add: small_shop_def)
  ultimately obtain bs c g' where
    "generate_and_load_transactions quiet_store 1 small_shop fixed_seed = (Inr (), c, g')"
    "events c = batch_log bs @ [Committed]" "length (concat bs) = 1"
    using run_success [of quiet_store 1 small_shop fixed_seed] by blast
  then show ?thesis by (simp add: committed_batches_inserted)
qed

theorem fact_keys_from_fetched_lists_witness:
  "hd (inserted_rows (fst (snd (generate_and_load_transactions quiet_store 1 small_shop fixed_seed))))
     \<in> set (inserted_rows (fst (snd (generate_and_load_transactions quiet_store 1 small_shop fixed_seed))))
   \<and> customer_id (hd (inserted_rows (fst (snd (generate_and_load_transactions quiet_store 1 small_shop fixed_seed)))))
     \<in> set (select_keys (customers small_shop))
   \<and> product_id (hd (inserted_rows (fst (snd (generate_and_load_transactions quiet_store 1 small_shop fixed_seed)))))
     \<in> set (select_keys (products small_shop))
   \<and> date_id (hd (inserted_rows (fst (snd (generate_and_load_transactions quiet_store 1 small_shop fixed_seed)))))
     \<in> set (select_keys (date_dimension small_shop))"
proof -
  let ?rows = "inserted_rows (fst (snd (generate_and_load_transactions quiet_store 1 small_shop fixed_seed)))"
  have "?rows \<noteq> []" using quiet_run_inserts by auto
  then have m: "hd ?rows \<in> set ?rows" by simp
  from m fact_keys_from_fetched_lists [OF m] show ?thesis by simp
qed



lemma load_batches_prefix:
  assumes keys: "cs \<noteq> []" "ps \<noteq> []" "ds \<noteq> []"
  shows "batch + k * batch_size \<le> n \<Longrightarrow>
    set ps \<subseteq> fst ` set (products (working c)) \<Longrightarrow>
    durable c = working c \<Longrightarrow>
    \<forall>i. batch \<le> i \<and> i < batch + k * batch_size \<longrightarrow> \<not> fault ev (SelectPrice i) \<Longrightarrow>
    \<forall>j<k. \<not> fault ev (InsertBatch (batch + j * batch_size))
        \<and> \<not> fault ev (Commit (batch + j * batch_size)) \<Longrightarrow>
    \<exists>bs c1 g1.
        load_batches ev cs ps ds n batch c g
          = load_batches ev cs ps ds n (batch + k * batch_size) c1 g1
      \<and> load_batches (ev\<lparr>fault := \<lambda>s. False\<rparr>) cs ps ds n batch c g
          = load_batches (ev\<lparr>fault := \<lambda>s. False\<rparr>) cs ps ds n (batch + k * batch_size) c1 g1
      \<and> events c1 = events c @ batch_log bs
      \<and> length bs = k
      \<and> (\<forall>b\<in>set bs. length b = batch_size)
      \<and> working c1 = add_rows (working c) (concat bs)
      \<and> durable c1 = working c1"
proof (induction k arbitrary: batch c g)
  case 0
  show ?case
    apply (rule exI [of _ "[]"], rule exI [of _ c], rule exI [of _ g])
    using "0.prems"(3) apply (simp add: batch_log_simps add_rows_simps)
    done
next
  case (Suc k)
  let ?q = "ev\<lparr>fault := \<lambda>s. False\<rparr>"
  have lt: "batch < n" and range: "min (batch + batch_size) n = batch + batch_size"
    using Suc.prems(1) by (simp_all add: batch_size_def)
  have clean: "\<forall>i\<in>set [batch ..< batch + batch_size]. \<not> fault ev (SelectPrice i)"
    using Suc.prems(4) by simp
  from generate_rows_ok [OF keys clean Suc.prems(2), of "[]" g] obtain rows g1 where
    gr: "generate_rows ev c cs ps ds [batch ..< batch + batch_size] [] g = (Inr rows, c, g1)"
    by blast
  have grq: "generate_rows ?q c cs ps ds [batch ..< batch + batch_size] [] g = (Inr rows, c, g1)"
    using generate_rows_quiet [OF clean] gr by simp
  have len: "length rows = batch_size"
    using generate_rows_length [OF gr] by simp
  from Suc.prems(5) have nf: "\<not> fault ev (InsertBatch batch)" "\<not> fault ev (Commit batch)"
    by force+
  let ?c1 = "commit (executemany rows c)"
  have step: "load_batches ev cs ps ds n batch c g
      = load_batches ev cs ps ds n (batch + batch_size) ?c1 g1"
    using nf by (simp add: load_batches_step [OF lt] range gr)
  have stepq: "load_batches ?q cs ps ds n batch c g
      = load_batches ?q cs ps ds n (batch + batch_size) ?c1 g1"
    by (simp add: load_batches_step [OF lt] range grq)
  have a1: "batch + batch_size + k * batch_size \<le> n"
    using Suc.prems(1) by simp
  have a2: "set ps \<subseteq> fst ` set (products (working ?c1))"
    using Suc.prems(2) by (simp add: conn_simps add_rows_simps)
  have a3: "durable ?c1 = working ?c1" by (simp add: conn_simps)
  have a4: "\<forall>i. batch + batch_size \<le> i \<and> i < batch + batch_size + k * batch_size
      \<longrightarrow> \<not> fault ev (SelectPrice i)"
    using Suc.prems(4) by simp
  have a5: "\<forall>j<k. \<not> fault ev (InsertBatch (batch + batch_size + j * batch_size))
        \<and> \<not> fault ev (Commit (batch + batch_size + j * batch_size))"
  proof (intro allI impI)
    fix j assume "j < k"
    then have "Suc j < Suc k" by simp
    with Suc.prems(5) have "\<not> fault ev (InsertBatch (batch + Suc j * batch_size))
        \<and> \<not> fault ev (Commit (batch + Suc j * batch_size))" by blast
    then show "\<not> fault ev (InsertBatch (batch + batch_size + j * batch_size))
        \<and> \<not> fault ev (Commit (batch + batch_size + j * batch_size))"
      by (simp add: add.assoc)
  qed
  from Suc.IH [OF a1 a2 a3 a4 a5, of g1] obtain bs c2 g2 where
    r1: "load_batches ev cs ps ds n (batch + batch_size) ?c1 g1
          = load_batches ev cs ps ds n (batch + batch_size + k * batch_size) c2 g2"
    and r2: "load_batches ?q cs ps ds n (batch + batch_size) ?c1 g1
          = load_batches ?q cs ps ds n (batch + batch_size + k * batch_size) c2 g2"
    and r3: "events c2 = events ?c1 @ batch_log bs"
    and r4: "length bs = k"
    and r5: "\<forall>b\<in>set bs. length b = batch_size"
    and r6: "working c2 = add_rows (working ?c1) (concat bs)"
    and r7: "durable c2 = working c2"
    by (elim exE conjE) (rule that, assumption+)
  have eq: "batch + batch_size + k * batch_size = batch + Suc k * batch_size" by simp
  have k1: "load_batches ev cs ps ds n batch c g
      = load_batches ev cs ps ds n (batch + Suc k * batch_size) c2 g2"
    using step r1 unfolding eq by simp
  have k2: "load_batches ?q cs ps ds n batch c g
      = load_batches ?q cs ps ds n (batch + Suc k * batch_size) c2 g2"
    using stepq r2 unfolding eq by simp
  have k3: "events c2 = events c @ batch_log (rows # bs)"
    using r3 by (simp add: conn_simps batch_log_simps)
  have k4: "length (rows # bs) = Suc k" using r4 by simp
  have k5: "\<forall>b\<in>set (rows # bs). length b = batch_size" using r5 len by simp
  have k6: "working c2 = add_rows (working c) (concat (rows # bs))"
    using r6 by (simp add: conn_simps add_rows_simps)
  show ?case
    apply (rule exI [of _ "rows # bs"], rule exI [of _ c2], rule exI [of _ g2])
    using k1 k2 k3 k4 k5 k6 r7 apply (intro conjI)
          apply assumption+
    done
qed

lemma load_batches_failing_batch:
  assumes keys: "cs \<noteq> []" "ps \<noteq> []" "ds \<noteq> []"
    and lt: "batch < n"
    and sub: "set ps \<subseteq> fst ` set (products (working c))"
    and fails: "(\<exists>i. batch \<le> i \<and> i < batch + batch_size \<and> i < n \<and> fault ev (SelectPrice i))
        \<or> fault ev (InsertBatch batch) \<or> fault ev (Commit batch)"
  shows "\<exists>tl c' g'. load_batches ev cs ps ds n batch c g = (Inl DatabaseError, c', g')
      \<and> events c' = events c @ tl
      \<and> durable c' = durable c
      \<and> ((\<exists>i. tl = [Rejected (SelectPrice i)] \<and> batch \<le> i \<and> i < batch + batch_size \<and> i < n
              \<and> fault ev (SelectPrice i))
          \<or> (tl = [Rejected (InsertBatch batch)] \<and> fault ev (InsertBatch batch))
          \<or> (\<exists>rows. tl = [BulkInsert rows, Rejected (Commit batch)] \<and> fault ev (Commit batch)))"
proof -
  let ?js = "[batch ..< min (batch + batch_size) n]"
  note step = load_batches_step [OF lt, of ev cs ps ds c g]
  show ?thesis
  proof (cases "\<exists>i\<in>set ?js. fault ev (SelectPrice i)")
    case True
    from split_list_first_prop [OF True] obtain pre i post where
      js: "?js = pre @ i # post" and fi: "fault ev (SelectPrice i)"
      and pre: "\<forall>j\<in>set pre. \<not> fault ev (SelectPrice j)"
      by blast
    have "i \<in> set ?js" unfolding js by simp
    then have bounds: "batch \<le> i" "i < batch + batch_size" "i < n" by simp_all
    from generate_rows_rejected [OF keys sub pre fi, of post "[]" g] obtain g' where
      "generate_rows ev c cs ps ds ?js [] g = (Inl DatabaseError, rejected (SelectPrice i) c, g')"
      unfolding js by blast
    then have lb: "load_batches ev cs ps ds n batch c g
        = (Inl DatabaseError, rejected (SelectPrice i) c, g')"
      unfolding step by simp
    show ?thesis
      apply (rule exI [of _ "[Rejected (SelectPrice i)]"])
      apply (rule exI [of _ "rejected (SelectPrice i) c"], rule exI [of _ g'])
      using lb bounds fi apply (simp add: conn_simps)
      done
  next
    case False
    then have clean: "\<forall>i\<in>set ?js. \<not> fault ev (SelectPrice i)" by blast
    from generate_rows_ok [OF keys clean sub, of "[]" g] obtain rows g' where
      gr: "generate_rows ev c cs ps ds ?js [] g = (Inr rows, c, g')"
      by blast
    from False fails have ic: "fault ev (InsertBatch batch) \<or> fault ev (Commit batch)"
      by auto
    show ?thesis
    proof (cases "fault ev (InsertBatch batch)")
      case True
      then have lb: "load_batches ev cs ps ds n batch c g
          = (Inl DatabaseError, rejected (InsertBatch batch) c, g')"
        unfolding step gr by simp
      show ?thesis
        apply (rule exI [of _ "[Rejected (InsertBatch batch)]"])
        apply (rule exI [of _ "rejected (InsertBatch batch) c"], rule exI [of _ g'])
        using lb True apply (simp add: conn_simps)
        done
    next
      case ni: False
      with ic have fc: "fault ev (Commit batch)" by simp
      with ni have lb: "load_batches ev cs ps ds n batch c g
          = (Inl DatabaseError, rejected (Commit batch) (executemany rows c), g')"
        unfolding step gr by simp
      show ?thesis
        apply (rule exI [of _ "[BulkInsert rows, Rejected (Commit batch)]"])
        apply (rule exI [of _ "rejected (Commit batch) (executemany rows c)"], rule exI [of _ g'])
        using lb fc apply (simp add: conn_simps)
        done
    qed
  qed
qed

lemma run_failing_batch:
  assumes ne: "customers d \<noteq> []" "products d \<noteq> []" "date_dimension d \<noteq> []"
    and nf: "\<not> fault ev Connect" "\<not> fault ev (SelectKeys Customers)"
      "\<not> fault ev (SelectKeys Products)" "\<not> fault ev (SelectKeys DateDimension)"
    and lt: "k * batch_size < n"
    and clean: "\<forall>i < k * batch_size. \<not> fault ev (SelectPrice i)"
      "\<forall>j < k. \<not> fault ev (InsertBatch (j * batch_size)) \<and> \<not> fault ev (Commit (j * batch_size))"
    and fails: "(\<exists>i. k * batch_size \<le> i \<and> i < k * batch_size + batch_size \<and> i < n
          \<and> fault ev (SelectPrice i))
        \<or> fault ev (InsertBatch (k * batch_size)) \<or> fault ev (Commit (k * batch_size))"
  shows "\<exists>bs rest tl c g' c0 g0.
        generate_and_load_transactions ev n d g = (Inl DatabaseError, c, g')
      \<and> generate_and_load_transactions (ev\<lparr>fault := \<lambda>s. False\<rparr>) n d g = (Inr (), c0, g0)
      \<and> events c0 = batch_log (bs @ rest) @ [Committed]
      \<and> length bs = k
      \<and> (\<forall>b\<in>set bs. length b = batch_size)
      \<and> events c = batch_log bs @ tl
      \<and> ((\<exists>i. tl = [Rejected (SelectPrice i)] \<and> k * batch_size \<le> i
              \<and> i < k * batch_size + batch_size \<and> i < n \<and> fault ev (SelectPrice i))
          \<or> (tl = [Rejected (InsertBatch (k * batch_size))]
              \<and> fault ev (InsertBatch (k * batch_size)))
          \<or> (\<exists>rows. tl = [BulkInsert rows, Rejected (Commit (k * batch_size))]
              \<and> fault ev (Commit (k * batch_size))))
      \<and> durable c = add_rows d (concat bs)
      \<and> working c = durable c"
proof -
  let ?cs = "select_keys (customers d)"
  let ?ps = "select_keys (products d)"
  let ?ds = "select_keys (date_dimension d)"
  let ?c0 = "get_connection d"
  let ?q = "ev\<lparr>fault := \<lambda>s. False\<rparr>"
  let ?kb = "k * batch_size"
  have keys: "?cs \<noteq> []" "?ps \<noteq> []" "?ds \<noteq> []"
    using ne by (simp_all add: select_keys_empty)
  have sub0: "set ?ps \<subseteq> fst ` set (products (working ?c0))"
    by (simp add: select_keys_def conn_simps)
  have h1: "0 + ?kb \<le> n" using lt by simp
  have h3: "durable ?c0 = working ?c0" by (simp add: conn_simps)
  have h4: "\<forall>i. 0 \<le> i \<and> i < 0 + ?kb \<longrightarrow> \<not> fault ev (SelectPrice i)"
    using clean(1) by simp
  have h5: "\<forall>j<k. \<not> fault ev (InsertBatch (0 + j * batch_size))
        \<and> \<not> fault ev (Commit (0 + j * batch_size))"
    using clean(2) by simp
  from load_batches_prefix [OF keys h1 sub0 h3 h4 h5, of g] obtain bs c1 g1 where
    p1': "load_batches ev ?cs ?ps ?ds n 0 ?c0 g = load_batches ev ?cs ?ps ?ds n (0 + ?kb) c1 g1"
    and p2': "load_batches ?q ?cs ?ps ?ds n 0 ?c0 g
        = load_batches ?q ?cs ?ps ?ds n (0 + ?kb) c1 g1"
    and e1': "events c1 = events ?c0 @ batch_log bs"
    and len: "length bs = k"
    and full: "\<forall>b\<in>set bs. length b = batch_size"
    and w1': "working c1 = add_rows (working ?c0) (concat bs)"
    and d1: "durable c1 = working c1"
    by (elim exE conjE) (rule that, assumption+)
  have p1: "load_batches ev ?cs ?ps ?ds n 0 ?c0 g = load_batches ev ?cs ?ps ?ds n ?kb c1 g1"
    using p1' by simp
  have p2: "load_batches ?q ?cs ?ps ?ds n 0 ?c0 g = load_batches ?q ?cs ?ps ?ds n ?kb c1 g1"
    using p2' by simp
  have e1: "events c1 = batch_log bs" using e1' by (simp add: conn_simps)
  have w1: "working c1 = add_rows d (concat bs)" using w1' by (simp add: conn_simps)
  have sub1: "set ?ps \<subseteq> fst ` set (products (working c1))"
    unfolding w1 by (simp add: select_keys_def add_rows_simps)
  obtain r2 c2 g2 where lb2: "load_batches ?q ?cs ?ps ?ds n ?kb c1 g1 = (r2, c2, g2)"
    by (cases "load_batches ?q ?cs ?ps ?ds n ?kb c1 g1")
  have nfq: "\<forall>s. \<not> fault ?q s" by simp
  have r2: "r2 = Inr ()"
    using load_batches_ok [OF keys nfq lb2 sub1] .
  have "\<forall>c i g row g'. products (working c) = products (working c1) \<longrightarrow>
      generate_transaction ?q c ?cs ?ps ?ds i g = (Inr row, c, g') \<longrightarrow> True"
    by simp
  from load_batches_shape [OF this lb2 refl] obtain rest pend rj where
    e2: "events c2 = events c1 @ batch_log rest @ map BulkInsert pend @ map Rejected rj"
    and ok: "r2 = Inr () \<longrightarrow> pend = [] \<and> rj = [] \<and> length (concat rest) = n - ?kb"
    by (elim exE conjE) (rule that, assumption+)
  from ok r2 have "pend = []" "rj = []" by simp_all
  with e2 e1 have e2': "events c2 = batch_log (bs @ rest)"
    by (simp add: batch_log_append)
  have runq: "generate_and_load_transactions ?q n d g = (Inr (), commit c2, g2)"
    unfolding generate_and_load_transactions_def Let_def conn_simps p2 lb2 r2 by simp
  from load_batches_failing_batch [OF keys lt sub1 fails, of g1] obtain tl cf gf where
    lbf: "load_batches ev ?cs ?ps ?ds n ?kb c1 g1 = (Inl DatabaseError, cf, gf)"
    and ef: "events cf = events c1 @ tl"
    and df: "durable cf = durable c1"
    and tl: "(\<exists>i. tl = [Rejected (SelectPrice i)] \<and> ?kb \<le> i \<and> i < ?kb + batch_size \<and> i < n
              \<and> fault ev (SelectPrice i))
          \<or> (tl = [Rejected (InsertBatch ?kb)] \<and> fault ev (InsertBatch ?kb))
          \<or> (\<exists>rows. tl = [BulkInsert rows, Rejected (Commit ?kb)] \<and> fault ev (Commit ?kb))"
    by (elim exE conjE) (rule that, assumption+)
  have run: "generate_and_load_transactions ev n d g = (Inl DatabaseError, rollback cf, gf)"
    unfolding generate_and_load_transactions_def Let_def conn_simps p1 lbf using nf by simp
  have k1: "events (commit c2) = batch_log (bs @ rest) @ [Committed]"
    using e2' by (simp add: conn_simps)
  have k2: "events (rollback cf) = batch_log bs @ tl"
    using ef e1 by (simp add: conn_simps)
  have k3: "durable (rollback cf) = add_rows d (concat bs)"
    using df d1 w1 by (simp add: conn_simps)
  have k4: "working (rollback cf) = durable (rollback cf)"
    by (simp add: conn_simps)
  show ?thesis
    apply (rule exI [of _ bs], rule exI [of _ rest], rule exI [of _ tl])
    apply (rule exI [of _ "rollback cf"], rule exI [of _ gf])
    apply (rule exI [of _ "commit c2"], rule exI [of _ g2])
    using run runq k1 len full k2 tl k3 k4 apply (intro conjI)
            apply assumption+
    done
qed

text \<open>
  C5. The store holds customers, products and dates and answers the connection and the
  three key queries. The first \<open>k\<close> batches meet no rejection: no price query of their
  rows, no bulk insertion, no commit. Batch \<open>k + 1\<close>, whose first row is number
  \<open>k * 5000\<close>, exists and meets one: a price query of one of its rows, its bulk insertion
  or its commit. Then \<^verbatim>\<open>generate_and_load_transactions\<close> ends with the database error.
  The batches of the same run on a store that rejects nothing are \<open>bs @ rest\<close>; the failed
  run inserted and committed exactly the first \<open>k\<close> of them, \<open>bs\<close>, each of 5000 rows, and
  the durable table is the old rows followed by the rows of \<open>bs\<close> and nothing of a later
  batch. After the record of these \<open>k\<close> batches the connection shows the one rejected
  statement, and nothing after it: the statement was attempted once, and no statement
  followed it. When it is the commit, the bulk insertion before it is rolled back with the
  working copy. (With an empty key list the first row fails before any batch: see C8.)
\<close>

theorem failed_batch_keeps_earlier_batches:
  assumes "customers d \<noteq> []" "products d \<noteq> []" "date_dimension d \<noteq> []"
    and "\<not> fault ev Connect" "\<not> fault ev (SelectKeys Customers)"
      "\<not> fault ev (SelectKeys Products)" "\<not> fault ev (SelectKeys DateDimension)"
    and "k * batch_size < n"
    and "\<forall>i < k * batch_size. \<not> fault ev (SelectPrice i)"
    and "\<forall>j < k. \<not> fault ev (InsertBatch (j * batch_size)) \<and> \<not> fault ev (Commit (j * batch_size))"
    and "(\<exists>i. k * batch_size \<le> i \<and> i < k * batch_size + batch_size \<and> i < n
          \<and> fault ev (SelectPrice i))
        \<or> fault ev (InsertBatch (k * batch_size)) \<or> fault ev (Commit (k * batch_size))"
  shows "\<exists>bs rest tl c g' c0 g0.
        generate_and_load_transactions ev n d g = (Inl DatabaseError, c, g')
      \<and> generate_and_load_transactions (ev\<lparr>fault := \<lambda>s. False\<rparr>) n d g = (Inr (), c0, g0)
      \<and> events c0 = batch_log (bs @ rest) @ [Committed]
      \<and> length bs = k
      \<and> (\<forall>b\<in>set bs. length b = batch_size)
      \<and> events c = batch_log bs @ tl
      \<and> ((\<exists>i. tl = [Rejected (SelectPrice i)] \<and> k * batch_size \<le> i
              \<and> i < k * batch_size + batch_size \<and> i < n \<and> fault ev (SelectPrice i))
          \<or> (tl = [Rejected (InsertBatch (k * batch_size))]
              \<and> fault ev (InsertBatch (k * batch_size)))
          \<or> (\<exists>rows. tl = [BulkInsert rows, Rejected (Commit (k * batch_size))]
              \<and> fault ev (Commit (k * batch_size))))
      \<and> durable c = add_rows d (concat bs)
      \<and> working c = durable c"
  using assms by (rule run_failing_batch)

lemma length_batch_log: "length (batch_log bs) = 2 * length bs"
  by (induction bs) (simp_all add: batch_log_simps)

lemma length_concat_full:
  "\<forall>b\<in>set bs. length b = m \<Longrightarrow> length (concat bs) = length bs * m"
  by (induction bs) simp_all

theorem failed_batch_keeps_earlier_batches_witness:
  "customers small_shop \<noteq> [] \<and> products small_shop \<noteq> [] \<and> date_dimension small_shop \<noteq> []
   \<and> \<not> fault flaky_store Connect \<and> \<not> fault flaky_store (SelectKeys Customers)
   \<and> \<not> fault flaky_store (SelectKeys Products) \<and> \<not> fault flaky_store (SelectKeys DateDimension)
   \<and> 1 * batch_size < 5001
   \<and> (\<forall>i. \<not> fault flaky_store (SelectPrice i))
   \<and> \<not> fault flaky_store (InsertBatch 0) \<and> \<not> fault flaky_store (Commit 0)
   \<and> fault flaky_store (InsertBatch (1 * batch_size))
   \<and> fst (generate_and_load_transactions flaky_store 5001 small_shop fixed_seed) = Inl DatabaseError
   \<and> length (sales_transactions (durable (fst (snd
        (generate_and_load_transactions flaky_store 5001 small_shop fixed_seed))))) = 5000
   \<and> length (events (fst (snd
        (generate_and_load_transactions flaky_store 5001 small_shop fixed_seed)))) = 3
   \<and> last (events (fst (snd
        (generate_and_load_transactions flaky_store 5001 small_shop fixed_seed))))
       = Rejected (InsertBatch 5000)"
proof -
  let ?run = "generate_and_load_transactions flaky_store 5001 small_shop fixed_seed"
  have h1: "customers small_shop \<noteq> []" "products small_shop \<noteq> []"
    "date_dimension small_shop \<noteq> []"
    by (simp_all add: small_shop_def)
  have h2: "\<not> fault flaky_store Connect" "\<not> fault flaky_store (SelectKeys Customers)"
    "\<not> fault flaky_store (SelectKeys Products)" "\<not> fault flaky_store (SelectKeys DateDimension)"
    by (simp_all add: flaky_store_def)
  have h3: "1 * batch_size < 5001" by (simp add: batch_size_def)
  have h4: "\<forall>i. \<not> fault flaky_store (SelectPrice i)" by (simp add: flaky_store_def)
  then have h4': "\<forall>i < 1 * batch_size. \<not> fault flaky_store (SelectPrice i)" by simp
  have h5: "\<not> fault flaky_store (InsertBatch 0)" "\<not> fault flaky_store (Commit 0)"
    by (simp_all add: flaky_store_def)
  then have h5': "\<forall>j < 1. \<not> fault flaky_store (InsertBatch (j * batch_size))
      \<and> \<not> fault flaky_store (Commit (j * batch_size))" by simp
  have h6: "fault flaky_store (InsertBatch (1 * batch_size))"
    by (simp add: flaky_store_def batch_size_def)
  then have h6': "(\<exists>i. 1 * batch_size \<le> i \<and> i < 1 * batch_size + batch_size \<and> i < 5001
          \<and> fault flaky_store (SelectPrice i))
        \<or> fault flaky_store (InsertBatch (1 * batch_size))
        \<or> fault flaky_store (Commit (1 * batch_size))" by simp
  from failed_batch_keeps_earlier_batches [OF h1 h2 h3 h4' h5' h6', of fixed_seed]
  obtain bs tl c g' where
    run: "?run = (Inl DatabaseError, c, g')"
    and len: "length bs = 1" and full: "\<forall>b\<in>set bs. length b = batch_size"
    and ev: "events c = batch_log bs @ tl"
    and tl: "(\<exists>i. tl = [Rejected (SelectPrice i)] \<and> 1 * batch_size \<le> i
              \<and> i < 1 * batch_size + batch_size \<and> i < 5001 \<and> fault flaky_store (SelectPrice i))
          \<or> (tl = [Rejected (InsertBatch (1 * batch_size))]
              \<and> fault flaky_store (InsertBatch (1 * batch_size)))
          \<or> (\<exists>rows. tl = [BulkInsert rows, Rejected (Commit (1 * batch_size))]
              \<and> fault flaky_store (Commit (1 * batch_size)))"
    and du: "durable c = add_rows small_shop (concat bs)"
    by (elim exE conjE) (rule that, assumption+)
  have "\<not> fault flaky_store (Commit (1 * batch_size))" by (simp add: flaky_store_def)
  with tl h4 have tl': "tl = [Rejected (InsertBatch 5000)]"
    by (auto simp: batch_size_def)
  have r1: "fst ?run = Inl DatabaseError" using run by simp
  have r2: "length (sales_transactions (durable (fst (snd ?run)))) = 5000"
    using run du length_concat_full [OF full] len
    by (simp add: add_rows_simps small_shop_def batch_size_def)
  have r3: "length (events (fst (snd ?run))) = 3"
    using run ev tl' len by (simp add: length_batch_log)
  have r4: "last (events (fst (snd ?run))) = Rejected (InsertBatch 5000)"
    using run ev tl' by simp
  from h1 h2 h3 h4 h5 h6 r1 r2 r3 r4 show ?thesis by (intro conjI)
qed

lemma run_empty_keys:
  assumes "0 < n" "customers d = [] \<or> products d = [] \<or> date_dimension d = []"
    and nf: "\<not> fault ev Connect" "\<not> fault ev (SelectKeys Customers)"
      "\<not> fault ev (SelectKeys Products)" "\<not> fault ev (SelectKeys DateDimension)"
  shows "\<exists>c g'. generate_and_load_transactions ev n d g = (Inl ValueError, c, g')
      \<and> events c = [] \<and> durable c = d \<and> working c = d
      \<and> pos g' \<le> pos g + 2 \<and> raw g' = raw g"
proof -
  from assms(2) have "select_keys (customers d) = [] \<or> select_keys (products d) = []
      \<or> select_keys (date_dimension d) = []"
    by (simp add: select_keys_empty)
  from load_batches_empty_keys [OF this assms(1), of ev "get_connection d" g] obtain g' where
    lb: "load_batches ev (select_keys (customers d)) (select_keys (products d))
        (select_keys (date_dimension d)) n 0 (get_connection d) g
        = (Inl ValueError, get_connection d, g')"
    and g: "pos g' \<le> pos g + 2" "raw g' = raw g"
    by blast
  have "generate_and_load_transactions ev n d g = (Inl ValueError, rollback (get_connection d), g')"
    unfolding generate_and_load_transactions_def Let_def conn_simps lb using nf by simp
  with g show ?thesis by (simp add: conn_simps)
qed

text \<open>
  C8, as the code has it. There is no check of the key lists before generation. When
  transactions are requested, the store answers the connection and the three key queries,
  and one of the key lists is empty, the run fails with the \<^verbatim>\<open>ValueError\<close> that
  \<^verbatim>\<open>np.random.choice\<close> raises on an empty sequence, while it generates the first row
  and after at most two draws from the lists before the empty one; nothing is inserted
  and nothing is committed.
\<close>

theorem empty_keys_fail_at_first_sample:
  assumes "0 < n" "customers d = [] \<or> products d = [] \<or> date_dimension d = []"
    and "\<not> fault ev Connect" "\<not> fault ev (SelectKeys Customers)"
      "\<not> fault ev (SelectKeys Products)" "\<not> fault ev (SelectKeys DateDimension)"
  shows "\<exists>c g'. generate_and_load_transactions ev n d g = (Inl ValueError, c, g')
      \<and> events c = [] \<and> durable c = d \<and> working c = d
      \<and> pos g' \<le> pos g + 2 \<and> raw g' = raw g"
  using assms by (rule run_empty_keys)

theorem empty_keys_fail_at_first_sample_witness:
  "(0::nat) < 1 \<and> products no_products = []
   \<and> \<not> fault quiet_store Connect \<and> \<not> fault quiet_store (SelectKeys Customers)
   \<and> \<not> fault quiet_store (SelectKeys Products) \<and> \<not> fault quiet_store (SelectKeys DateDimension)
   \<and> fst (generate_and_load_transactions quiet_store 1 no_products fixed_seed) = Inl ValueError
   \<and> durable (fst (snd (generate_and_load_transactions quiet_store 1 no_products fixed_seed)))
       = no_products"
proof -
  have h1: "(0::nat) < 1" by simp
  have h2: "products no_products = []" by (simp add: no_products_def)
  then have h2': "customers no_products = [] \<or> products no_products = []
      \<or> date_dimension no_products = []" by simp
  have h: "\<not> fault quiet_store Connect" "\<not> fault quiet_store (SelectKeys Customers)"
    "\<not> fault quiet_store (SelectKeys Products)" "\<not> fault quiet_store (SelectKeys DateDimension)"
    by (simp_all add: quiet_store_def)
  from empty_keys_fail_at_first_sample [OF h1 h2' h, of fixed_seed] obtain c g' where
    "generate_and_load_transactions quiet_store 1 no_products fixed_seed = (Inl ValueError, c, g')"
    "durable c = no_products"
    by (elim exE conjE) (rule that, assumption+)
  then have "fst (generate_and_load_transactions quiet_store 1 no_products fixed_seed) = Inl ValueError"
    "durable (fst (snd (generate_and_load_transactions quiet_store 1 no_products fixed_seed)))
       = no_products"
    by simp_all
  with h1 h2 h show ?thesis by simp
qed

text \<open>
  Against C8 as stated: with one customer, one date and no product, a request for one
  transaction fails with the sampling error only after the customer of the first row has
  been drawn (one draw is consumed): generation has started, and the error is the one
  raised by sampling from the empty list.
\<close>

theorem empty_products_sampled_counterexample:
  "fst (generate_and_load_transactions quiet_store 1 no_products fixed_seed) = Inl ValueError
   \<and> pos fixed_seed = 0
   \<and> pos (snd (snd (generate_and_load_transactions quiet_store 1 no_products fixed_seed))) = 1
   \<and> fst (choice (select_keys (products no_products)) (fixed_seed\<lparr>pos := 1\<rparr>)) = Inl ValueError"
proof -
  have gt: "generate_transaction quiet_store (get_connection no_products) [1] [] [1] 0 fixed_seed
      = (Inl ValueError, get_connection no_products, fixed_seed\<lparr>pos := 1\<rparr>)"
    by (simp add: generate_transaction_def choice_def draw_def fixed_seed_def)
  have "[0 ..< min (0 + batch_size) 1] = [0]" by (simp add: batch_size_def)
  then have lb: "load_batches quiet_store [1] [] [1] 1 0 (get_connection no_products) fixed_seed
      = (Inl ValueError, get_connection no_products, fixed_seed\<lparr>pos := 1\<rparr>)"
    using gt by (simp add: load_batches_step conn_simps)
  have keys: "select_keys (customers no_products) = [1]" "select_keys (products no_products) = []"
    "select_keys (date_dimension no_products) = [1]"
    by (simp_all add: select_keys_def no_products_def)
  have "generate_and_load_transactions quiet_store 1 no_products fixed_seed
      = (Inl ValueError, rollback (get_connection no_products), fixed_seed\<lparr>pos := 1\<rparr>)"
    unfolding generate_and_load_transactions_def Let_def conn_simps keys lb
    by (simp add: quiet_store_def)
  then show ?thesis
    by (simp add: keys choice_def fixed_seed_def)
qed

lemma two_pow_powi: "two_pow e = 2 powi e"
  by (simp add: two_pow_def power_int_def field_simps)

lemma two_pow_pos: "0 < two_pow e"
  by (simp add: two_pow_powi)

lemma two_pow_add: "two_pow (a + b) = two_pow a * two_pow b"
  by (simp add: two_pow_powi power_int_add)

lemma two_pow_mono: "a \<le> b \<Longrightarrow> two_pow a \<le> two_pow b"
  by (simp add: two_pow_powi power_int_increasing)

lemma two_pow_strict_mono: "a < b \<Longrightarrow> two_pow a < two_pow b"
  by (simp add: two_pow_powi power_int_strict_increasing)

lemma two_pow_nat: "two_pow (int k) = 2 ^ k"
  by (simp add: two_pow_def)

lemma two_pow_neg_nat: "two_pow (- int k) = 1 / 2 ^ k"
  by (cases "k = 0") (simp_all add: two_pow_def)

lemma exponent_bounds:
  assumes "0 < x"
  shows "two_pow (exponent x) \<le> x" "x < two_pow (exponent x + 1)"
proof -
  have "two_pow (exponent x) \<le> x \<and> x < two_pow (exponent x + 1)"
  proof (cases "1 \<le> x")
    case True
    let ?n = "nat \<lfloor>x\<rfloor>"
    let ?k = "floorlog 2 ?n"
    from True have n: "0 < ?n" by simp
    from floorlog_bounds [OF n, of 2] have b: "2 ^ (?k - 1) \<le> ?n" "?n < 2 ^ ?k" by simp_all
    from n have k: "0 < ?k" by (simp add: floorlog_eq_zero_iff Suc_le_eq flip: not_le)
    have e: "exponent x = int (?k - 1)" using True k by (simp add: exponent_def)
    have "(2::rat) ^ (?k - 1) \<le> of_nat ?n" using b(1) by (metis of_nat_le_iff of_nat_numeral of_nat_power)
    also have "\<dots> \<le> x" using True by (simp add: of_nat_nat)
    finally have lo: "two_pow (exponent x) \<le> x" unfolding e two_pow_nat .
    have "\<lfloor>x\<rfloor> < 2 ^ ?k" using b(2) True
      by (metis nat_less_iff of_nat_numeral of_nat_power zero_le_floor order_trans zero_le_one)
    then have hi0: "x < 2 ^ ?k" by (metis floor_less_iff of_int_numeral of_int_power)
    have e1: "exponent x + 1 = int ?k" using e k by simp
    have "x < two_pow (exponent x + 1)" unfolding e1 two_pow_nat by (rule hi0)
    with lo show ?thesis by (rule conjI)
  next
    case False
    then have x1: "x < 1" by simp
    let ?m = "nat (\<lceil>1 / x\<rceil> - 1)"
    let ?k = "floorlog 2 ?m"
    have inv: "1 < 1 / x" using assms x1 by simp
    then have c2: "2 \<le> \<lceil>1 / x\<rceil>" by (simp add: less_ceiling_iff flip: add1_zle_eq)
    then have m: "0 < ?m" by simp
    from floorlog_bounds [OF m, of 2] have b: "2 ^ (?k - 1) \<le> ?m" "?m < 2 ^ ?k" by simp_all
    from m have k: "0 < ?k" by (simp add: floorlog_eq_zero_iff Suc_le_eq flip: not_le)
    have e: "exponent x = - int ?k" using False by (simp add: exponent_def)
    have "0 \<le> \<lceil>1 / x\<rceil> - 1" using c2 by linarith
    then have im: "int ?m = \<lceil>1 / x\<rceil> - 1" by (simp only: int_nat_eq if_True)
    have "int ?m < 2 ^ ?k" using b(2) by (metis of_nat_less_iff of_nat_numeral of_nat_power)
    then have "\<lceil>1 / x\<rceil> \<le> 2 ^ ?k" unfolding im by linarith
    then have "1 / x \<le> 2 ^ ?k" by (metis ceiling_le_iff of_int_numeral of_int_power)
    then have lo: "1 / 2 ^ ?k \<le> x" using assms by (simp add: field_simps)
    have "(2::int) ^ (?k - 1) \<le> int ?m" using b(1) by (metis of_nat_le_iff of_nat_numeral of_nat_power)
    then have "2 ^ (?k - 1) < \<lceil>1 / x\<rceil>" unfolding im by linarith
    then have "2 ^ (?k - 1) < 1 / x" by (metis less_ceiling_iff of_int_numeral of_int_power)
    then have hi: "x < 1 / 2 ^ (?k - 1)" using assms by (simp add: field_simps)
    have e1: "exponent x + 1 = - int (?k - 1)" using e k by simp
    have t1: "two_pow (exponent x) = 1 / 2 ^ ?k" unfolding e by (rule two_pow_neg_nat)
    have t2: "two_pow (exponent x + 1) = 1 / 2 ^ (?k - 1)" unfolding e1 by (rule two_pow_neg_nat)
    show ?thesis unfolding t1 t2 using lo hi by (rule conjI)
  qed
  then show "two_pow (exponent x) \<le> x" "x < two_pow (exponent x + 1)" by simp_all
qed

lemma exponent_unique:
  assumes "0 < x" "two_pow p \<le> x" "x < two_pow (p + 1)"
  shows "exponent x = p"
proof (rule antisym)
  show "exponent x \<le> p"
  proof (rule ccontr)
    assume "\<not> exponent x \<le> p"
    then have "p + 1 \<le> exponent x" by simp
    from two_pow_mono [OF this] exponent_bounds(1) [OF assms(1)] assms(3) show False by simp
  qed
  show "p \<le> exponent x"
  proof (rule ccontr)
    assume "\<not> p \<le> exponent x"
    then have "exponent x + 1 \<le> p" by simp
    from two_pow_mono [OF this] exponent_bounds(2) [OF assms(1)] assms(2) show False by simp
  qed
qed

lemma rint_error: "\<bar>of_int (rint y) - y\<bar> \<le> 1 / 2"
proof -
  have "of_int \<lfloor>y\<rfloor> \<le> y" "y < of_int \<lfloor>y\<rfloor> + 1" by linarith+
  then show ?thesis by (auto simp: rint_def Let_def)
qed

lemma rint_near:
  assumes "\<bar>y - of_int m\<bar> < 1 / 2"
  shows "rint y = m"
proof -
  have f: "of_int \<lfloor>y\<rfloor> \<le> y" "y < of_int \<lfloor>y\<rfloor> + 1" by linarith+
  from rint_error [of y] assms have "\<bar>(of_int (rint y) :: rat) - of_int m\<bar> < 1" by linarith
  then have "\<bar>rint y - m\<bar> < 1" by (metis of_int_abs of_int_diff of_int_less_1_iff)
  then show ?thesis by simp
qed

lemma rint_tie:
  assumes "y = of_int m + 1 / 2"
  shows "rint y = (if even m then m else m + 1)"
proof -
  have "\<lfloor>y\<rfloor> = m" unfolding assms by (simp add: floor_unique)
  then show ?thesis using assms by (simp add: rint_def Let_def)
qed

lemma float64_cert:
  assumes "0 < x" "two_pow p \<le> x" "x < two_pow (p + 1)" "- 1022 \<le> p"
    and "rint (x / two_pow (p - 52)) = m"
    and "y = of_int m * two_pow (p - 52)"
  shows "float64 x = y"
proof -
  have "exponent \<bar>x\<bar> = p" using exponent_unique [OF assms(1-3)] assms(1) by simp
  then have "float64 x = of_int (rint (x / two_pow (p - 52))) * two_pow (p - 52)"
    using assms(1,4) by (simp add: float64_def Let_def max_def)
  with assms(5,6) show ?thesis by simp
qed

text \<open>
  Against C2 as stated: a product priced 10.45, quantity 1 and the 10 percent discount.
  The stored discount is 1.04 (10.45 times 0.1 is 1.045 in binary64, times 100 is the tie
  104.5, rounded to the even 104) and the stored total is 10.45 - 1.04 = 9.41, while
  \<^verbatim>\<open>round(unit_price * quantity * (1 - discount_pct), 2)\<close> is 9.40.
\<close>

theorem total_is_not_rounded_product_counterexample:
  "inserted_rows (fst (snd (generate_and_load_transactions quiet_store 1 small_shop fixed_seed))) =
     [\<lparr>customer_id = 1, product_id = 1, date_id = 1, quantity = 1,
       unit_price = float64 (1045 / 100), total_amount = float64 (941 / 100),
       discount_amount = float64 (104 / 100)\<rparr>]
   \<and> np_round (f_mul (f_mul (float64 (1045 / 100)) 1) (float64 (10 / 100))) 2 = float64 (104 / 100)
   \<and> np_round (f_mul (f_mul (float64 (1045 / 100)) 1) (f_sub 1 (float64 (10 / 100)))) 2
       = float64 (940 / 100)
   \<and> float64 (941 / 100) \<noteq> float64 (940 / 100)"
proof -
  have v1: "float64 (209 / 20) = 2941413506626355 / 281474976710656"
  proof (rule float64_cert [where p = "3" and m = 5882827013252710])
    show "rint ((209 / 20) / two_pow (3 - 52)) = 5882827013252710"
      by (rule rint_near) (simp add: two_pow_def)
  qed (simp_all add: two_pow_def)
  have v2: "f_mul (2941413506626355 / 281474976710656) (1) = 2941413506626355 / 281474976710656"
  unfolding f_mul_def
  proof (rule float64_cert [where p = "3" and m = 5882827013252710])
    show "rint (((2941413506626355 / 281474976710656) * (1)) / two_pow (3 - 52)) = 5882827013252710"
      by (rule rint_near) (simp add: two_pow_def)
  qed (simp_all add: two_pow_def)
  have v3: "float64 (1 / 10) = 3602879701896397 / 36028797018963968"
  proof (rule float64_cert [where p = "- 4" and m = 7205759403792794])
    show "rint ((1 / 10) / two_pow (- 4 - 52)) = 7205759403792794"
      by (rule rint_near) (simp add: two_pow_def)
  qed (simp_all add: two_pow_def)
  have v4: "f_mul (2941413506626355 / 281474976710656) (3602879701896397 / 36028797018963968) = 588282701325271 / 562949953421312"
  unfolding f_mul_def
  proof (rule float64_cert [where p = "0" and m = 4706261610602168])
    show "rint (((2941413506626355 / 281474976710656) * (3602879701896397 / 36028797018963968)) / two_pow (0 - 52)) = 4706261610602168"
      by (rule rint_near) (simp add: two_pow_def)
  qed (simp_all add: two_pow_def)
  have v5: "f_mul (588282701325271 / 562949953421312) (100) = 209 / 2"
  unfolding f_mul_def
  proof (rule float64_cert [where p = "6" and m = 7353533766565888])
    show "rint (((588282701325271 / 562949953421312) * (100)) / two_pow (6 - 52)) = 7353533766565888"
      by (subst rint_tie [where m = 7353533766565887]) (simp_all add: two_pow_def)
  qed (simp_all add: two_pow_def)
  have v6: "rint (209 / 2) = 104"
    by (subst rint_tie [where m = 104]) simp_all
  have v7: "f_div (104) (100) = 1170935903116329 / 1125899906842624"
  unfolding f_div_def
  proof (rule float64_cert [where p = "0" and m = 4683743612465316])
    show "rint (((104) / (100)) / two_pow (0 - 52)) = 4683743612465316"
      by (rule rint_near) (simp add: two_pow_def)
  qed (simp_all add: two_pow_def)
  have v8: "f_sub (2941413506626355 / 281474976710656) (1170935903116329 / 1125899906842624) = 2648679530847273 / 281474976710656"
  unfolding f_sub_def
  proof (rule float64_cert [where p = "3" and m = 5297359061694546])
    show "rint (((2941413506626355 / 281474976710656) - (1170935903116329 / 1125899906842624)) / two_pow (3 - 52)) = 5297359061694546"
      by (subst rint_tie [where m = 5297359061694545]) (simp_all add: two_pow_def)
  qed (simp_all add: two_pow_def)
  have v9: "f_mul (2648679530847273 / 281474976710656) (100) = 941"
  unfolding f_mul_def
  proof (rule float64_cert [where p = "9" and m = 8277123533897728])
    show "rint (((2648679530847273 / 281474976710656) * (100)) / two_pow (9 - 52)) = 8277123533897728"
      by (rule rint_near) (simp add: two_pow_def)
  qed (simp_all add: two_pow_def)
  have v10: "rint (941) = 941"
    by (rule rint_near) simp
  have v11: "f_div (941) (100) = 2648679530847273 / 281474976710656"
  unfolding f_div_def
  proof (rule float64_cert [where p = "3" and m = 5297359061694546])
    show "rint (((941) / (100)) / two_pow (3 - 52)) = 5297359061694546"
      by (rule rint_near) (simp add: two_pow_def)
  qed (simp_all add: two_pow_def)
  have v12: "f_sub (1) (3602879701896397 / 36028797018963968) = 8106479329266893 / 9007199254740992"
  unfolding f_sub_def
  proof (rule float64_cert [where p = "- 1" and m = 8106479329266893])
    show "rint (((1) - (3602879701896397 / 36028797018963968)) / two_pow (- 1 - 52)) = 8106479329266893"
      by (rule rint_near) (simp add: two_pow_def)
  qed (simp_all add: two_pow_def)
  have v13: "f_mul (2941413506626355 / 281474976710656) (8106479329266893 / 9007199254740992) = 5294544311927439 / 562949953421312"
  unfolding f_mul_def
  proof (rule float64_cert [where p = "3" and m = 5294544311927439])
    show "rint (((2941413506626355 / 281474976710656) * (8106479329266893 / 9007199254740992)) / two_pow (3 - 52)) = 5294544311927439"
      by (rule rint_near) (simp add: two_pow_def)
  qed (simp_all add: two_pow_def)
  have v14: "f_mul (5294544311927439 / 562949953421312) (100) = 8272725487386623 / 8796093022208"
  unfolding f_mul_def
  proof (rule float64_cert [where p = "9" and m = 8272725487386623])
    show "rint (((5294544311927439 / 562949953421312) * (100)) / two_pow (9 - 52)) = 8272725487386623"
      by (rule rint_near) (simp add: two_pow_def)
  qed (simp_all add: two_pow_def)
  have v15: "rint (8272725487386623 / 8796093022208) = 940"
    by (rule rint_near) simp
  have v16: "f_div (940) (100) = 5291729562160333 / 562949953421312"
  unfolding f_div_def
  proof (rule float64_cert [where p = "3" and m = 5291729562160333])
    show "rint (((940) / (100)) / two_pow (3 - 52)) = 5291729562160333"
      by (rule rint_near) (simp add: two_pow_def)
  qed (simp_all add: two_pow_def)
  have v17: "float64 (941 / 100) = 2648679530847273 / 281474976710656"
  proof (rule float64_cert [where p = "3" and m = 5297359061694546])
    show "rint ((941 / 100) / two_pow (3 - 52)) = 5297359061694546"
      by (rule rint_near) (simp add: two_pow_def)
  qed (simp_all add: two_pow_def)
  have v18: "float64 (26 / 25) = 1170935903116329 / 1125899906842624"
  proof (rule float64_cert [where p = "0" and m = 4683743612465316])
    show "rint ((26 / 25) / two_pow (0 - 52)) = 4683743612465316"
      by (rule rint_near) (simp add: two_pow_def)
  qed (simp_all add: two_pow_def)
  have v19: "float64 (47 / 5) = 5291729562160333 / 562949953421312"
  proof (rule float64_cert [where p = "3" and m = 5291729562160333])
    show "rint ((47 / 5) / two_pow (3 - 52)) = 5291729562160333"
      by (rule rint_near) (simp add: two_pow_def)
  qed (simp_all add: two_pow_def)
  note vs = v1 v2 v3 v4 v5 v6 v7 v8 v9 v10 v11 v12 v13 v14 v15 v16 v17 v18 v19
  have gt: "generate_transaction quiet_store (get_connection small_shop) [1] [1] [1] 0 fixed_seed =
      (Inr \<lparr>customer_id = 1, product_id = 1, date_id = 1, quantity = 1,
         unit_price = float64 (1045 / 100), total_amount = float64 (941 / 100),
         discount_amount = float64 (104 / 100)\<rparr>, get_connection small_shop,
       fixed_seed\<lparr>pos := 5\<rparr>)"
    by (simp add: generate_transaction_def choice_def draw_def randint_def fixed_seed_def
        quiet_store_def small_shop_def lamp_def discounts_def np_round_def conn_simps vs)
  let ?row = "\<lparr>customer_id = 1, product_id = 1, date_id = 1, quantity = 1,
            unit_price = float64 (1045 / 100), total_amount = float64 (941 / 100),
            discount_amount = float64 (104 / 100)\<rparr>"
  have upt: "[0 ..< min (0 + batch_size) 1] = [0]" by (simp add: batch_size_def)
  have st: "load_batches quiet_store [1] [1] [1] 1 0 (get_connection small_shop) fixed_seed =
     (case generate_rows quiet_store (get_connection small_shop) [1] [1] [1]
             [0 ..< min (0 + batch_size) 1] [] fixed_seed of
        (Inl e, c', g') \<Rightarrow> (Inl e, c', g')
      | (Inr rows, c', g') \<Rightarrow>
          if fault quiet_store (InsertBatch 0)
          then (Inl DatabaseError, rejected (InsertBatch 0) c', g')
          else if fault quiet_store (Commit 0)
            then (Inl DatabaseError, rejected (Commit 0) (executemany rows c'), g')
          else load_batches quiet_store [1] [1] [1] 1 (0 + batch_size)
                 (commit (executemany rows c')) g')"
    by (rule load_batches_step) simp
  have gr: "generate_rows quiet_store (get_connection small_shop) [1] [1] [1]
             [0 ..< min (0 + batch_size) 1] [] fixed_seed
      = (Inr [?row], get_connection small_shop, fixed_seed\<lparr>pos := 5\<rparr>)"
    unfolding upt using gt by simp
  have nf: "\<not> fault quiet_store (InsertBatch 0)" "\<not> fault quiet_store (Commit 0)"
    by (simp_all add: quiet_store_def)
  have dn: "load_batches quiet_store [1] [1] [1] 1 (0 + batch_size)
      (commit (executemany [?row] (get_connection small_shop))) (fixed_seed\<lparr>pos := 5\<rparr>)
      = (Inr (), commit (executemany [?row] (get_connection small_shop)), fixed_seed\<lparr>pos := 5\<rparr>)"
    by (rule load_batches_done) (simp add: batch_size_def)
  have lb: "load_batches quiet_store [1] [1] [1] 1 0 (get_connection small_shop) fixed_seed
      = (Inr (), commit (executemany [?row] (get_connection small_shop)),
         fixed_seed\<lparr>pos := 5\<rparr>)"
    unfolding st gr by (simp only: prod.case sum.case nf if_False dn)
  have keys: "select_keys (customers small_shop) = [1]" "select_keys (products small_shop) = [1]"
    "select_keys (date_dimension small_shop) = [1]"
    by (simp_all add: select_keys_def small_shop_def)
  have run: "generate_and_load_transactions quiet_store 1 small_shop fixed_seed
      = (Inr (), commit (commit (executemany
          [\<lparr>customer_id = 1, product_id = 1, date_id = 1, quantity = 1,
            unit_price = float64 (1045 / 100), total_amount = float64 (941 / 100),
            discount_amount = float64 (104 / 100)\<rparr>] (get_connection small_shop))),
         fixed_seed\<lparr>pos := 5\<rparr>)"
    unfolding generate_and_load_transactions_def Let_def conn_simps keys lb
    by (simp add: quiet_store_def)
  have rows: "inserted_rows (fst (snd (generate_and_load_transactions quiet_store 1 small_shop fixed_seed))) =
     [\<lparr>customer_id = 1, product_id = 1, date_id = 1, quantity = 1,
       unit_price = float64 (1045 / 100), total_amount = float64 (941 / 100),
       discount_amount = float64 (104 / 100)\<rparr>]"
    unfolding run by (simp add: inserted_rows_def conn_simps)
  have c1: "np_round (f_mul (f_mul (float64 (1045 / 100)) 1) (float64 (10 / 100))) 2 = float64 (104 / 100)"
    by (simp add: np_round_def vs)
  have c2: "np_round (f_mul (f_mul (float64 (1045 / 100)) 1) (f_sub 1 (float64 (10 / 100)))) 2
       = float64 (940 / 100)"
    by (simp add: np_round_def vs)
  have c3: "float64 (941 / 100) \<noteq> float64 (940 / 100)"
    by (simp add: vs)
  from rows c1 c2 c3 show ?thesis by (intro conjI)
qed

text \<open>
  C2, as the code has it. Every generated row has the unit price of the product it names,
  as the products table had it when the row was generated (converted to binary64), a
  quantity from 1 to 5 and a discount rate \<open>dp\<close> among 0, 0.05, 0.10 and 0.15 such
  that \<open>discount_amount = round(unit_price * quantity * dp, 2)\<close> and
  \<open>total_amount = round(unit_price * quantity - discount_amount, 2)\<close>: the total is
  computed from the rounded discount, not from \<open>1 - dp\<close>.
\<close>

theorem fact_amounts_from_sampled_values:
  assumes "r \<in> set (inserted_rows (fst (snd (generate_and_load_transactions ev n d g))))"
  shows "\<exists>p dp. map_of (products d) (product_id r) = Some p
      \<and> unit_price r = float64 (price p)
      \<and> 1 \<le> quantity r \<and> quantity r \<le> 5
      \<and> dp \<in> set discounts
      \<and> discount_amount r = np_round (f_mul (f_mul (unit_price r) (of_int (quantity r))) dp) 2
      \<and> total_amount r = np_round (f_sub (f_mul (unit_price r) (of_int (quantity r)))
            (discount_amount r)) 2"
proof (rule run_inserted [OF _ assms], intro allI impI)
  fix c i g row g'
  assume w: "products (working c) = products d"
    and gt: "generate_transaction ev c (select_keys (customers d)) (select_keys (products d))
        (select_keys (date_dimension d)) i g = (Inr row, c, g')"
  from gt show "\<exists>p dp. map_of (products d) (product_id row) = Some p
      \<and> unit_price row = float64 (price p)
      \<and> 1 \<le> quantity row \<and> quantity row \<le> 5
      \<and> dp \<in> set discounts
      \<and> discount_amount row = np_round (f_mul (f_mul (unit_price row) (of_int (quantity row))) dp) 2
      \<and> total_amount row = np_round (f_sub (f_mul (unit_price row) (of_int (quantity row)))
            (discount_amount row)) 2"
  proof (cases rule: generate_transaction_Inr)
    case (1 cid g1 pid g2 did g3 p qty g4 dp)
    from randint_range [OF 1(6)] choice_mem [OF 1(7)] 1(5,8) w show ?thesis
      by (intro exI [of _ p] exI [of _ dp]) simp
  qed
qed

theorem fact_amounts_from_sampled_values_witness:
  "hd (inserted_rows (fst (snd (generate_and_load_transactions quiet_store 1 small_shop fixed_seed))))
     \<in> set (inserted_rows (fst (snd (generate_and_load_transactions quiet_store 1 small_shop fixed_seed))))
   \<and> (\<exists>p dp. map_of (products small_shop) (product_id (hd (inserted_rows (fst (snd
          (generate_and_load_transactions quiet_store 1 small_shop fixed_seed)))))) = Some p
      \<and> unit_price (hd (inserted_rows (fst (snd
          (generate_and_load_transactions quiet_store 1 small_shop fixed_seed))))) = float64 (price p)
      \<and> dp \<in> set discounts)"
proof -
  let ?rows = "inserted_rows (fst (snd (generate_and_load_transactions quiet_store 1 small_shop fixed_seed)))"
  have "?rows \<noteq> []" using quiet_run_inserts by auto
  then have m: "hd ?rows \<in> set ?rows" by simp
  from fact_amounts_from_sampled_values [OF m] obtain p dp where
    "map_of (products small_shop) (product_id (hd ?rows)) = Some p"
    "unit_price (hd ?rows) = float64 (price p)" "dp \<in> set discounts"
    by (elim exE conjE) (rule that, assumption+)
  with m show ?thesis by blast
qed

lemma run_reports_eq:
  "run_reports ev rs out =
     (case dropWhile (answers ev) rs of
        [] \<Rightarrow> (Inr (), out @ concat (map (\<lambda>r. [Heading r, Result r]) rs))
      | r # rest \<Rightarrow>
          (Inl DatabaseError,
           out @ concat (map (\<lambda>r. [Heading r, Result r]) (takeWhile (answers ev) rs)) @ [Heading r]))"
proof (induction rs arbitrary: out)
  case Nil
  then show ?case by simp
next
  case (Cons r rs)
  show ?case
  proof (cases "answers ev r")
    case True
    then have h: "run_reports ev (r # rs) out = run_reports ev rs (out @ [Heading r, Result r])"
      by (simp add: run_report_def answers_def)
    show ?thesis
      unfolding h Cons.IH [of "out @ [Heading r, Result r]"] using True
      by (intro list.case_cong) simp_all
  next
    case False
    then show ?thesis by (simp add: run_report_def answers_def)
  qed
qed

text \<open>
  C9, as the code has it. The six reports run in their fixed order inside one \<^verbatim>\<open>try\<close>:
  the output is the banner, the heading and table of every report before the first one
  whose query fails, then either the completion line (no query failed) or the heading of
  the failing report and one error line; no report after the failing one is attempted.
\<close>

theorem reports_stop_at_first_failure:
  "analytics_main ev =
     Banner # concat (map (\<lambda>r. [Heading r, Result r]) (takeWhile (answers ev) battery))
       @ (case dropWhile (answers ev) battery of
            [] \<Rightarrow> [Completed]
          | r # rest \<Rightarrow> [Heading r, ErrorLine DatabaseError])"
proof (cases "dropWhile (answers ev) battery")
  case Nil
  then have tw: "takeWhile (answers ev) battery = battery"
    by (metis append_Nil2 takeWhile_dropWhile_id)
  show ?thesis unfolding analytics_main_def run_reports_eq Nil tw by simp
next
  case (Cons r rest)
  show ?thesis unfolding analytics_main_def run_reports_eq Cons by simp
qed

text \<open>
  Against C9 as stated: when the query of the first report fails, the whole output is
  the banner, the heading of that report and one error line; none of the five later
  reports is attempted.
\<close>

theorem first_report_failure_aborts_counterexample:
  "analytics_main first_query_fails = [Banner, Heading SalesByMonth, ErrorLine DatabaseError]"
  by (simp add: analytics_main_def battery_def run_report_def first_query_fails_def)

lemma insert_rows_eq:
  "insert_rows ev t ins j rows w =
     (if \<exists>k < length rows. fault ev (InsertRow t (j + k)) then Inl DatabaseError
      else Inr (foldl (\<lambda>w r. ins r w) w rows))"
proof (induction rows arbitrary: j w)
  case Nil
  then show ?case by simp
next
  case (Cons r rows)
  have "(\<exists>k < length (r # rows). fault ev (InsertRow t (j + k))) \<longleftrightarrow>
      fault ev (InsertRow t j) \<or> (\<exists>k < length rows. fault ev (InsertRow t (Suc j + k)))"
    by (auto simp: less_Suc_eq_0_disj)
  then show ?case using Cons.IH [of "Suc j" "ins r w"] by simp
qed

lemma extended_refl: "extended old [] old"
  by (simp add: extended_def)

lemma extended_snoc:
  "extended old rows new \<Longrightarrow> extended old (rows @ [r]) (new @ [(k, r)])"
  by (auto simp: extended_def take_map [symmetric] dest: arg_cong [where f = length])

lemma foldl_insert_date:
  "extended (date_dimension w) rows (date_dimension (foldl (\<lambda>w r. insert_date ev r w) w rows))
   \<and> customers (foldl (\<lambda>w r. insert_date ev r w) w rows) = customers w
   \<and> products (foldl (\<lambda>w r. insert_date ev r w) w rows) = products w
   \<and> sales_transactions (foldl (\<lambda>w r. insert_date ev r w) w rows) = sales_transactions w"
  by (induction rows rule: rev_induct) (simp_all add: extended_refl extended_snoc insert_date_def)

lemma foldl_insert_customer:
  "extended (customers w) rows (customers (foldl (\<lambda>w r. insert_customer ev r w) w rows))
   \<and> date_dimension (foldl (\<lambda>w r. insert_customer ev r w) w rows) = date_dimension w
   \<and> products (foldl (\<lambda>w r. insert_customer ev r w) w rows) = products w
   \<and> sales_transactions (foldl (\<lambda>w r. insert_customer ev r w) w rows) = sales_transactions w"
  by (induction rows rule: rev_induct) (simp_all add: extended_refl extended_snoc insert_customer_def)

lemma foldl_insert_product:
  "extended (products w) rows (products (foldl (\<lambda>w r. insert_product ev r w) w rows))
   \<and> date_dimension (foldl (\<lambda>w r. insert_product ev r w) w rows) = date_dimension w
   \<and> customers (foldl (\<lambda>w r. insert_product ev r w) w rows) = customers w
   \<and> sales_transactions (foldl (\<lambda>w r. insert_product ev r w) w rows) = sales_transactions w"
  by (induction rows rule: rev_induct) (simp_all add: extended_refl extended_snoc insert_product_def)

lemma foldl_inserts_fully_loaded:
  assumes "date_dimension_csv f = Some dates_df" "customers_csv f = Some customers_df"
    "products_csv f = Some products_df"
  shows "fully_loaded f d
     (foldl (\<lambda>w r. insert_product ev r w)
        (foldl (\<lambda>w r. insert_customer ev r w)
           (foldl (\<lambda>w r. insert_date ev r w) d dates_df) customers_df) products_df)"
  unfolding fully_loaded_def
  using assms foldl_insert_date [of d dates_df ev]
    foldl_insert_customer [of "foldl (\<lambda>w r. insert_date ev r w) d dates_df" customers_df ev]
    foldl_insert_product [of "foldl (\<lambda>w r. insert_customer ev r w)
           (foldl (\<lambda>w r. insert_date ev r w) d dates_df) customers_df" products_df ev]
  by simp

lemma load_dimension_tables_failed:
  assumes "dimension_faults ev f"
  shows "fst (load_dimension_tables ev f d) \<noteq> Inr ()
    \<and> durable (snd (load_dimension_tables ev f d)) = d
    \<and> working (snd (load_dimension_tables ev f d)) = d"
  using assms
  by (auto simp: load_dimension_tables_def insert_rows_eq dimension_faults_def
      rejected_insert_def file_rows_def get_connection_def rollback_def commit_def Let_def
      split: option.splits)

lemma load_dimension_tables_loaded:
  assumes "\<not> dimension_faults ev f"
  shows "fully_loaded f d (durable (snd (load_dimension_tables ev f d)))
    \<and> working (snd (load_dimension_tables ev f d)) = durable (snd (load_dimension_tables ev f d))
    \<and> (fst (load_dimension_tables ev f d) = Inr () \<longleftrightarrow> \<not> fault ev ExitCommit)"
proof -
  from assms obtain dates_df customers_df products_df where
    fs: "date_dimension_csv f = Some dates_df" "customers_csv f = Some customers_df"
      "products_csv f = Some products_df"
    by (auto simp: dimension_faults_def)
  from assms fs have nf: "\<not> fault ev Connect" "\<not> fault ev CommitDimensions"
    "\<And>k. k < length dates_df \<Longrightarrow> \<not> fault ev (InsertRow DateDimension k)"
    "\<And>k. k < length customers_df \<Longrightarrow> \<not> fault ev (InsertRow Customers k)"
    "\<And>k. k < length products_df \<Longrightarrow> \<not> fault ev (InsertRow Products k)"
    by (auto simp: dimension_faults_def rejected_insert_def file_rows_def)
  have "load_dimension_tables ev f d =
      (let c' = commit ((get_connection d)\<lparr>working :=
          foldl (\<lambda>w r. insert_product ev r w)
            (foldl (\<lambda>w r. insert_customer ev r w)
              (foldl (\<lambda>w r. insert_date ev r w) d dates_df) customers_df) products_df\<rparr>)
       in if fault ev ExitCommit then (Inl DatabaseError, rollback c') else (Inr (), commit c'))"
    unfolding load_dimension_tables_def insert_rows_eq fs Let_def
    using nf by (auto simp: get_connection_def)
  then show ?thesis
    using foldl_inserts_fully_loaded [OF fs, of d ev]
    by (simp add: get_connection_def rollback_def commit_def Let_def)
qed

text \<open>
  C7. \<^verbatim>\<open>load_dimension_tables\<close> inserts the rows of the three files in one transaction
  with a single commit after the last loop. Hence, for each dimension, the durable table
  is afterwards either the table as it was or the table followed by every row of that
  dimension's file, never a part of them; the working copy ends equal to the durable one;
  a successful call has loaded every row; and when the store rejects any insertion the
  call fails with the error and nothing (of any dimension) is committed.
\<close>

theorem dimensions_commit_together_or_not_at_all:
  "(durable (snd (load_dimension_tables ev f d)) = d
      \<or> fully_loaded f d (durable (snd (load_dimension_tables ev f d))))
   \<and> working (snd (load_dimension_tables ev f d)) = durable (snd (load_dimension_tables ev f d))
   \<and> (fst (load_dimension_tables ev f d) = Inr ()
        \<longrightarrow> fully_loaded f d (durable (snd (load_dimension_tables ev f d))))
   \<and> (rejected_insert ev f
        \<longrightarrow> fst (load_dimension_tables ev f d) \<noteq> Inr ()
          \<and> durable (snd (load_dimension_tables ev f d)) = d)"
proof (cases "dimension_faults ev f")
  case True
  from load_dimension_tables_failed [OF this, of d] show ?thesis by simp
next
  case False
  then have "\<not> rejected_insert ev f" by (simp add: dimension_faults_def)
  with load_dimension_tables_loaded [OF False, of d] show ?thesis by simp
qed

theorem dimensions_commit_together_or_not_at_all_witness:
  "fst (load_dimension_tables quiet_store three_files empty_warehouse) = Inr ()
   \<and> fully_loaded three_files empty_warehouse
        (durable (snd (load_dimension_tables quiet_store three_files empty_warehouse)))
   \<and> rejected_insert rejects_product three_files
   \<and> fst (load_dimension_tables rejects_product three_files empty_warehouse) \<noteq> Inr ()
   \<and> durable (snd (load_dimension_tables rejects_product three_files empty_warehouse))
        = empty_warehouse"
proof -
  have "\<not> dimension_faults quiet_store three_files"
    by (simp add: dimension_faults_def rejected_insert_def quiet_store_def three_files_def)
  from load_dimension_tables_loaded [OF this, of empty_warehouse]
  have ok: "fst (load_dimension_tables quiet_store three_files empty_warehouse) = Inr ()"
    by (simp add: quiet_store_def)
  have rej: "rejected_insert rejects_product three_files"
    by (simp add: rejected_insert_def rejects_product_def three_files_def file_rows_def)
  from dimensions_commit_together_or_not_at_all [of quiet_store three_files empty_warehouse] ok
  have a: "fully_loaded three_files empty_warehouse
        (durable (snd (load_dimension_tables quiet_store three_files empty_warehouse)))"
    by blast
  from dimensions_commit_together_or_not_at_all [of rejects_product three_files empty_warehouse] rej
  have b: "fst (load_dimension_tables rejects_product three_files empty_warehouse) \<noteq> Inr ()"
    "durable (snd (load_dimension_tables rejects_product three_files empty_warehouse))
        = empty_warehouse"
    by blast+
  from ok a rej b show ?thesis by (intro conjI)
qed

end
